theory Spec2Isabelle
  imports Complex_Main "HOL-Library.AList" "HOL-Library.Sublist"
begin

section \<open>Values of the host language\<close>

text \<open>
  Values that come out of \<^verbatim>\<open>JSON.parse\<close> / \<^verbatim>\<open>res.json()\<close>. An object is the list of its
  entries in property order, each key occurring once. Numbers are only ever tested for being
  zero by the code below.
\<close>

datatype json =
    JNull
  | JBool bool
  | JNum rat
  | JStr string
  | JArr "json list"
  | JObj "(string \<times> json) list"

text \<open>\<^verbatim>\<open>!data\<close> is true exactly for the falsy values.\<close>

fun truthy :: "json \<Rightarrow> bool" where
  "truthy JNull = False"
| "truthy (JBool b) = b"
| "truthy (JNum n) = (n \<noteq> 0)"
| "truthy (JStr s) = (s \<noteq> [])"
| "truthy (JArr _) = True"
| "truthy (JObj _) = True"

text \<open>\<^verbatim>\<open>typeof v === "object"\<close>: objects, arrays and \<^verbatim>\<open>null\<close>.\<close>

fun typeof_object :: "json \<Rightarrow> bool" where
  "typeof_object JNull = True"
| "typeof_object (JArr _) = True"
| "typeof_object (JObj _) = True"
| "typeof_object _ = False"

fun isArray :: "json \<Rightarrow> bool" where
  "isArray (JArr _) = True"
| "isArray _ = False"

text \<open>Property read \<^verbatim>\<open>v.k\<close>; \<^verbatim>\<open>undefined\<close> is \<open>None\<close>. Only own data properties of
  parsed objects are modelled.\<close>

fun get_prop :: "json \<Rightarrow> string \<Rightarrow> json option" where
  "get_prop (JObj kvs) k = map_of kvs k"
| "get_prop _ k = None"

text \<open>\<^verbatim>\<open>arr.filter((name) => typeof name === "string")\<close>\<close>

fun strings_of :: "json list \<Rightarrow> string list" where
  "strings_of [] = []"
| "strings_of (JStr s # vs) = s # strings_of vs"
| "strings_of (_ # vs) = strings_of vs"

text \<open>
  A \<^verbatim>\<open>Set<string>\<close> is the list of its members in insertion order, without repetition.
  \<open>set_add\<close> is \<^verbatim>\<open>s.add(x)\<close>, \<open>new_Set\<close> is \<^verbatim>\<open>new Set(iterable)\<close>, \<^verbatim>\<open>Array.from(s)\<close> is the
  list itself and \<^verbatim>\<open>s.has(x)\<close> is membership.
\<close>

definition set_add :: "'a list \<Rightarrow> 'a \<Rightarrow> 'a list" where
  "set_add s x = (if x \<in> set s then s else s @ [x])"

definition new_Set :: "'a list \<Rightarrow> 'a list" where
  "new_Set xs = foldl set_add [] xs"

text \<open>Decimal rendering of a number, as in the keys of \<^verbatim>\<open>Object.entries\<close> of an array and in
  template strings.\<close>

fun show_nat :: "nat \<Rightarrow> string" where
  "show_nat n =
     (if n < 10 then [''0123456789'' ! n]
      else show_nat (n div 10) @ [''0123456789'' ! (n mod 10)])"

declare show_nat.simps [simp del]

text \<open>
  The own properties of a plain object are the list of its entries in enumeration order:
  first the keys that are array indices (the decimal rendering of a number up to
  \<open>2^32 - 2\<close>, without leading zeros) in ascending numeric order, then all other keys
  in the order in which they were created.
\<close>

definition digit_value :: "char \<Rightarrow> nat option" where
  "digit_value c =
     map_of [(CHR ''0'', 0), (CHR ''1'', 1), (CHR ''2'', 2), (CHR ''3'', 3), (CHR ''4'', 4),
             (CHR ''5'', 5), (CHR ''6'', 6), (CHR ''7'', 7), (CHR ''8'', 8), (CHR ''9'', 9)] c"

fun parse_digits :: "nat \<Rightarrow> string \<Rightarrow> nat option" where
  "parse_digits acc [] = Some acc"
| "parse_digits acc (c # cs) =
     (case digit_value c of None \<Rightarrow> None | Some d \<Rightarrow> parse_digits (10 * acc + d) cs)"

definition array_index :: "string \<Rightarrow> nat option" where
  "array_index k =
     (if k = [] then None
      else case parse_digits 0 k of
             None \<Rightarrow> None
           | Some n \<Rightarrow> if n \<le> 4294967294 \<and> show_nat n = k then Some n else None)"

text \<open>A new array-index key \<open>n\<close> goes behind the array-index keys below it.\<close>

fun insert_index :: "nat \<Rightarrow> string \<times> 'v \<Rightarrow> (string \<times> 'v) list \<Rightarrow> (string \<times> 'v) list" where
  "insert_index n e [] = [e]"
| "insert_index n e (x # xs) =
     (case array_index (fst x) of
        Some m \<Rightarrow> if m < n then x # insert_index n e xs else e # x # xs
      | None \<Rightarrow> e # x # xs)"

text \<open>Defining the own property \<open>k\<close> of an object with value \<open>v\<close>: an existing property
  keeps its place, a new one is placed as described.\<close>

definition obj_put :: "string \<Rightarrow> 'v \<Rightarrow> (string \<times> 'v) list \<Rightarrow> (string \<times> 'v) list" where
  "obj_put k v obj =
     (if k \<in> fst ` set obj then AList.update k v obj
      else case array_index k of
             Some n \<Rightarrow> insert_index n (k, v) obj
           | None \<Rightarrow> obj @ [(k, v)])"

section \<open>Toggle state (org-root-config.ts)\<close>

datatype DisabledMode = Hide | Placeholder

record disabledModeT =
  dm_default :: DisabledMode
  dm_apps :: "(string \<times> DisabledMode) list"

record ToggleState =
  disabled :: "string list"
  disabledMode :: "disabledModeT option"

text \<open>
  \<^verbatim>\<open>const ALWAYS_ON_APPS = new Set<string>()\<close>. The constant is empty in this build; every
  function that reads it takes its content as the first argument \<open>on\<close>, so that what is
  proved holds for any content of the constant.
\<close>

definition ALWAYS_ON_APPS :: "string list" where
  "ALWAYS_ON_APPS = []"

definition sanitizeDisabledApps :: "string list \<Rightarrow> string list \<Rightarrow> string list" where
  "sanitizeDisabledApps on names = new_Set (filter (\<lambda>name. name \<notin> set on) names)"

text \<open>\<^verbatim>\<open>setRuntimeDisabledApps\<close>: clear the module-level set, then add every name that is not
  always-on. The result is the new content of \<^verbatim>\<open>runtimeDisabledApps\<close>.\<close>

definition setRuntimeDisabledApps :: "string list \<Rightarrow> string list \<Rightarrow> string list" where
  "setRuntimeDisabledApps on disabled_in =
     foldl (\<lambda>acc name. if name \<notin> set on then set_add acc name else acc) [] disabled_in"

text \<open>The two literal strings that denote a rendering mode.\<close>

fun mode_of :: "json option \<Rightarrow> DisabledMode option" where
  "mode_of (Some (JStr s)) =
     (if s = ''hide'' then Some Hide else if s = ''placeholder'' then Some Placeholder else None)"
| "mode_of _ = None"

text \<open>
  \<^verbatim>\<open>entries.sort(([a], [b]) => a.localeCompare(b))\<close>: a stable sort of the entries by key.
  The collation \<^verbatim>\<open>localeCompare\<close> belongs to the platform and is a parameter \<open>lc\<close>.
\<close>

fun insert_entry :: "(string \<Rightarrow> string \<Rightarrow> int) \<Rightarrow> string \<times> 'v \<Rightarrow> (string \<times> 'v) list \<Rightarrow> (string \<times> 'v) list" where
  "insert_entry lc e [] = [e]"
| "insert_entry lc e (x # xs) =
     (if lc (fst e) (fst x) \<le> 0 then e # x # xs else x # insert_entry lc e xs)"

definition sort_entries :: "(string \<Rightarrow> string \<Rightarrow> int) \<Rightarrow> (string \<times> 'v) list \<Rightarrow> (string \<times> 'v) list" where
  "sort_entries lc es = foldr (insert_entry lc) es []"

text \<open>
  The \<^verbatim>\<open>forEach\<close> body: \<^verbatim>\<open>if (mode === "hide" || mode === "placeholder") apps[name] = mode\<close>,
  where \<^verbatim>\<open>apps\<close> was created as \<^verbatim>\<open>{}\<close>. The assignment defines an own property, except for the
  name \<^verbatim>\<open>__proto__\<close>: that assignment reaches the setter inherited from \<^verbatim>\<open>Object.prototype\<close>,
  which ignores a value that is a string, so that no property is created.
\<close>

definition assign_mode :: "(string \<times> DisabledMode) list \<Rightarrow> string \<times> json \<Rightarrow> (string \<times> DisabledMode) list" where
  "assign_mode apps e =
     (case mode_of (Some (snd e)) of
        Some m \<Rightarrow> if fst e = ''__proto__'' then apps else obj_put (fst e) m apps
      | None \<Rightarrow> apps)"

text \<open>\<^verbatim>\<open>normalizeDisabledModeConfig\<close> of org-root-config.ts; \<open>None\<close> is \<^verbatim>\<open>undefined\<close>.\<close>

definition normalizeDisabledModeConfig :: "(string \<Rightarrow> string \<Rightarrow> int) \<Rightarrow> json option \<Rightarrow> disabledModeT option" where
  "normalizeDisabledModeConfig lc v =
     (case mode_of v of
        Some m \<Rightarrow> Some \<lparr>dm_default = m, dm_apps = []\<rparr>
      | None \<Rightarrow>
         (case v of
            None \<Rightarrow> None
          | Some input \<Rightarrow>
              if \<not> truthy input \<or> \<not> typeof_object input \<or> isArray input then None
              else
                let apps =
                      (case get_prop input ''apps'' of
                         Some (JObj es) \<Rightarrow> foldl assign_mode [] (sort_entries lc es)
                       | _ \<Rightarrow> []);
                    defaultMode =
                      (case mode_of (get_prop input ''default'') of Some m \<Rightarrow> m | None \<Rightarrow> Hide)
                in Some \<lparr>dm_default = defaultMode, dm_apps = apps\<rparr>))"

text \<open>What a read of a storage key followed by \<^verbatim>\<open>JSON.parse\<close> can give: the storage
  access throws, there is no item (or the empty string), the text is not JSON, or a value.\<close>

datatype stored = StorageError | NoItem | BadJson | Item json

fun getDisabledApps :: "string list \<Rightarrow> stored \<Rightarrow> string list" where
  "getDisabledApps on (Item (JArr vs)) = sanitizeDisabledApps on (strings_of vs)"
| "getDisabledApps on _ = new_Set []"

section \<open>Promises and responses\<close>

text \<open>
  A promise is represented by how it settles. \<open>then_p\<close> and \<open>catch_p\<close> are \<^verbatim>\<open>.then(f)\<close> and
  \<^verbatim>\<open>.catch(g)\<close> for callbacks that return settled promises.
\<close>

datatype 'a settled = Rejects | Resolves 'a

fun then_p :: "'a settled \<Rightarrow> ('a \<Rightarrow> 'b settled) \<Rightarrow> 'b settled" where
  "then_p Rejects f = Rejects"
| "then_p (Resolves x) f = f x"

fun catch_p :: "'a settled \<Rightarrow> 'a settled \<Rightarrow> 'a settled" where
  "catch_p Rejects g = g"
| "catch_p (Resolves x) g = Resolves x"

text \<open>A response: the status and the body as \<^verbatim>\<open>res.json()\<close> or \<^verbatim>\<open>res.text()\<close> delivers it
  (\<open>None\<close> when reading or parsing the body rejects). A rejected \<^verbatim>\<open>fetch\<close> (network error,
  abort by timeout) is \<open>Rejects\<close>.\<close>

datatype 'b response = Response (status: nat) (body: "'b option")

definition ok :: "'b response \<Rightarrow> bool" where
  "ok res = (200 \<le> status res \<and> status res \<le> 299)"

definition read_body :: "'b response \<Rightarrow> 'b settled" where
  "read_body res = (case body res of None \<Rightarrow> Rejects | Some b \<Rightarrow> Resolves b)"

section \<open>Remote toggle state\<close>

text \<open>The second \<^verbatim>\<open>.then\<close> callback of \<^verbatim>\<open>getServerToggleState\<close>.\<close>

definition toggle_of_data :: "(string \<Rightarrow> string \<Rightarrow> int) \<Rightarrow> string list \<Rightarrow> json \<Rightarrow> ToggleState" where
  "toggle_of_data lc on data =
     (if \<not> truthy data \<or> \<not> typeof_object data \<or> isArray data
      then \<lparr>disabled = [], disabledMode = None\<rparr>
      else
        let disabled_names =
              (case get_prop data ''disabled'' of
                 Some (JArr vs) \<Rightarrow> sanitizeDisabledApps on (strings_of vs)
               | _ \<Rightarrow> []);
            mode = normalizeDisabledModeConfig lc (get_prop data ''disabledMode'')
        in \<lparr>disabled = disabled_names, disabledMode = mode\<rparr>)"

definition getServerToggleState ::
  "(string \<Rightarrow> string \<Rightarrow> int) \<Rightarrow> string list \<Rightarrow> json response settled \<Rightarrow> ToggleState settled" where
  "getServerToggleState lc on fetched =
     catch_p
       (then_p
          (then_p fetched
             (\<lambda>res. if ok res then read_body res else Resolves (JObj [(''disabled'', JArr [])])))
          (\<lambda>data. Resolves (toggle_of_data lc on data)))
       (Resolves \<lparr>disabled = [], disabledMode = None\<rparr>)"

section \<open>Page state and reconciliation (org-root-config.ts)\<close>

text \<open>\<^verbatim>\<open>JSON.stringify\<close> belongs to the platform and is a parameter \<open>str\<close> of the functions
  that call it. \<open>mode_json\<close> is the value it is applied to in
  \<^verbatim>\<open>JSON.stringify(x.disabledMode || null)\<close>.\<close>

fun mode_name :: "DisabledMode \<Rightarrow> string" where
  "mode_name Hide = ''hide''"
| "mode_name Placeholder = ''placeholder''"

fun mode_json :: "disabledModeT option \<Rightarrow> json" where
  "mode_json None = JNull"
| "mode_json (Some m) =
     JObj [(''default'', JStr (mode_name (dm_default m))),
           (''apps'', JObj (map (\<lambda>(k, v). (k, JStr (mode_name v))) (dm_apps m)))]"

datatype page_event =
    MfeToggle "string list" "disabledModeT option"
  | MfeAvailability "string list"

text \<open>The availability snapshot \<^verbatim>\<open>{available, disabled, disabledMode}\<close> that
  \<^verbatim>\<open>readAvailabilityCache\<close> returns and \<^verbatim>\<open>writeAvailabilityCache\<close> stores.\<close>

record snapshot =
  snap_available :: "string list"
  snap_disabled :: "string list"
  snap_disabledMode :: "disabledModeT option"

text \<open>
  The mutable state of the module: the reload guard, the count of
  \<^verbatim>\<open>window.location.reload()\<close> calls, \<^verbatim>\<open>runtimeDisabledApps\<close>, the two window globals, the
  attempted storage writes, \<^verbatim>\<open>currentAvailableApps\<close>, the dispatched events, the registered
  applications (\<open>None\<close> until \<^verbatim>\<open>start()\<close>), and the closure variables of
  \<^verbatim>\<open>watchServerToggle\<close> (\<open>poll_timer\<close> is the delay of the pending timeout).
\<close>

record page =
  reloadScheduled :: bool
  reloads :: nat
  runtimeDisabledApps :: "string list"
  mfeServerDisabled :: "string list option"
  mfeDisabledMode :: "disabledModeT option"
  modeWrites :: "disabledModeT list"
  cacheWrites :: "snapshot list"
  currentAvailableApps :: "string list option"
  dispatched :: "page_event list"
  registered :: "string list option"
  watching :: bool
  poll_last :: string
  poll_timer :: "nat option"
  poll_inFlight :: bool

definition initial_page :: page where
  "initial_page =
     \<lparr>reloadScheduled = False, reloads = 0, runtimeDisabledApps = [],
      mfeServerDisabled = None, mfeDisabledMode = None, modeWrites = [], cacheWrites = [],
      currentAvailableApps = None, dispatched = [], registered = None, watching = False,
      poll_last = [], poll_timer = None, poll_inFlight = False\<rparr>"

definition safeReload :: "page \<Rightarrow> page" where
  "safeReload pg =
     (if reloadScheduled pg then pg
      else pg\<lparr>reloadScheduled := True, reloads := reloads pg + 1\<rparr>)"

definition emitAvailability :: "string list \<Rightarrow> page \<Rightarrow> page" where
  "emitAvailability available pg = pg\<lparr>dispatched := dispatched pg @ [MfeAvailability available]\<rparr>"

definition emitDisabledApps ::
  "string list \<Rightarrow> string list \<Rightarrow> string list \<Rightarrow> disabledModeT option \<Rightarrow> page \<Rightarrow> page" where
  "emitDisabledApps on serverDisabledApps localDisabledApps serverDisabledMode pg =
     (let safeServerDisabledApps = sanitizeDisabledApps on serverDisabledApps;
          safeLocalDisabledApps = sanitizeDisabledApps on localDisabledApps;
          pg1 = pg\<lparr>mfeServerDisabled := Some safeServerDisabledApps,
                   mfeDisabledMode := serverDisabledMode,
                   modeWrites := (case serverDisabledMode of
                                    Some m \<Rightarrow> modeWrites pg @ [m]
                                  | None \<Rightarrow> modeWrites pg)\<rparr>;
          disabledApps = sanitizeDisabledApps on (safeServerDisabledApps @ safeLocalDisabledApps)
      in pg1\<lparr>dispatched := dispatched pg1 @ [MfeToggle disabledApps serverDisabledMode]\<rparr>)"

text \<open>\<^verbatim>\<open>registerApplication\<close> of each application, \<^verbatim>\<open>layoutEngine.activate()\<close>, \<^verbatim>\<open>start()\<close>
  and \<^verbatim>\<open>watchServerToggle()\<close>, up to the first \<^verbatim>\<open>poll()\<close>, which is the signal \<open>PollTick\<close>
  below.\<close>

definition register_and_start :: "string list \<Rightarrow> page \<Rightarrow> page" where
  "register_and_start applications pg = pg\<lparr>registered := Some applications, watching := True\<rparr>"

text \<open>Startup outside local development: the callback of
  \<^verbatim>\<open>getServerToggleState().then(...)\<close>. \<open>allApps\<close> are the names of \<^verbatim>\<open>allApplications\<close>.\<close>

definition start_production ::
  "string list \<Rightarrow> string list \<Rightarrow> ToggleState \<Rightarrow> string list \<Rightarrow> page \<Rightarrow> page" where
  "start_production on allApps serverToggle localDisabledApps pg =
     (let serverDisabledApps = disabled serverToggle;
          disabledApps = sanitizeDisabledApps on (localDisabledApps @ serverDisabledApps);
          pg1 = pg\<lparr>runtimeDisabledApps := setRuntimeDisabledApps on disabledApps\<rparr>;
          pg2 = emitDisabledApps on (new_Set serverDisabledApps) localDisabledApps
                  (disabledMode serverToggle) pg1
      in register_and_start allApps pg2)"

text \<open>Startup in local development with a fresh cache entry: the body of \<^verbatim>\<open>if (cached)\<close>.\<close>

definition start_from_cache ::
  "string list \<Rightarrow> string list \<Rightarrow> snapshot \<Rightarrow> stored \<Rightarrow> page \<Rightarrow> page" where
  "start_from_cache on allApps cached local_item pg =
     (let localDisabledApps = getDisabledApps on local_item;
          disabledApps = sanitizeDisabledApps on (snap_disabled cached @ localDisabledApps);
          pg1 = pg\<lparr>runtimeDisabledApps := setRuntimeDisabledApps on disabledApps,
                   currentAvailableApps := Some (snap_available cached)\<rparr>;
          pg2 = emitAvailability (snap_available cached) pg1;
          pg3 = emitDisabledApps on (snap_disabled cached) localDisabledApps
                  (snap_disabledMode cached) pg2;
          applications = filter (\<lambda>app. app \<in> set on \<or> app \<in> set (snap_available cached)) allApps
      in register_and_start applications pg3)"

text \<open>The comparison of the cached snapshot with the fresh probe in \<^verbatim>\<open>runAvailabilityCheck\<close>.\<close>

definition diverged ::
  "(json \<Rightarrow> string) \<Rightarrow> snapshot \<Rightarrow> string list \<Rightarrow> string list \<Rightarrow> disabledModeT option \<Rightarrow> bool" where
  "diverged str cached availableApps serverDisabledApps serverMode =
     (length (snap_available cached) \<noteq> length availableApps
      \<or> length (snap_disabled cached) \<noteq> length serverDisabledApps
      \<or> str (mode_json (snap_disabledMode cached)) \<noteq> str (mode_json serverMode)
      \<or> list_ex (\<lambda>name. name \<notin> set availableApps) (snap_available cached)
      \<or> list_ex (\<lambda>name. name \<notin> set serverDisabledApps) (snap_disabled cached))"

text \<open>The callback of \<^verbatim>\<open>Promise.all([...probes, getServerToggleState()]).then(...)\<close> in
  \<^verbatim>\<open>runAvailabilityCheck\<close>. \<open>availability\<close> are the pairs \<^verbatim>\<open>[name, ok]\<close> of the probes,
  \<open>cached\<close> is the snapshot read at startup (\<open>None\<close> for \<^verbatim>\<open>null\<close>).\<close>

definition runAvailabilityCheck ::
  "(json \<Rightarrow> string) \<Rightarrow> string list \<Rightarrow> string list \<Rightarrow> snapshot option \<Rightarrow>
   (string \<times> bool) list \<Rightarrow> ToggleState \<Rightarrow> stored \<Rightarrow> page \<Rightarrow> page" where
  "runAvailabilityCheck str on allApps cached availability serverToggle local_item pg =
     (let localDisabledApps = getDisabledApps on local_item;
          availableApps = new_Set (map fst (filter snd availability));
          serverDisabledApps = new_Set (disabled serverToggle);
          disabledApps = sanitizeDisabledApps on (serverDisabledApps @ localDisabledApps);
          pg1 = pg\<lparr>runtimeDisabledApps := setRuntimeDisabledApps on disabledApps,
                   cacheWrites := cacheWrites pg @
                     [\<lparr>snap_available = availableApps, snap_disabled = serverDisabledApps,
                       snap_disabledMode = disabledMode serverToggle\<rparr>],
                   currentAvailableApps := Some availableApps\<rparr>;
          pg2 = emitAvailability availableApps pg1;
          pg3 = emitDisabledApps on serverDisabledApps localDisabledApps
                  (disabledMode serverToggle) pg2
      in case cached of
           None \<Rightarrow>
             register_and_start
               (filter (\<lambda>app. app \<in> set on \<or> app \<in> set availableApps) allApps) pg3
         | Some c \<Rightarrow>
             if diverged str c availableApps serverDisabledApps (disabledMode serverToggle)
             then safeReload pg3 else pg3)"


section \<open>Reload signals and the remote-toggle poller\<close>

text \<open>The \<^verbatim>\<open>storage\<close> listener of \<^verbatim>\<open>bootstrap\<close>; \<open>None\<close> is a \<^verbatim>\<open>null\<close> key.\<close>

definition on_storage :: "string option \<Rightarrow> page \<Rightarrow> page" where
  "on_storage key pg =
     (if key = Some ''mfe-disabled'' \<or> key = Some ''mfe-disabled-mode'' then safeReload pg else pg)"

text \<open>\<^verbatim>\<open>bc.onmessage\<close> of the channel \<^verbatim>\<open>mfe-disabled-sync\<close>.\<close>

definition on_broadcast :: "json \<Rightarrow> page \<Rightarrow> page" where
  "on_broadcast data pg =
     (if truthy data \<and> typeof_object data
         \<and> (get_prop data ''type'' = Some (JStr ''mfe-toggle'')
              \<or> get_prop data ''type'' = Some (JStr ''mfe-disabled-mode''))
      then safeReload pg else pg)"

text \<open>\<^verbatim>\<open>schedule(ms)\<close> of \<^verbatim>\<open>watchServerToggle\<close>: the pending timeout is replaced.\<close>

definition schedule :: "nat \<Rightarrow> page \<Rightarrow> page" where
  "schedule ms pg = pg\<lparr>poll_timer := Some ms\<rparr>"

text \<open>\<^verbatim>\<open>poll()\<close> up to the call of \<^verbatim>\<open>fetchWithTimeout\<close>; \<open>hidden\<close> is \<^verbatim>\<open>document.hidden\<close>.
  A request is in flight afterwards exactly when \<open>poll_inFlight\<close> became true.\<close>

definition poll :: "bool \<Rightarrow> page \<Rightarrow> page" where
  "poll hidden pg =
     (if poll_inFlight pg then schedule 5000 pg
      else if hidden then schedule 15000 pg
      else pg\<lparr>poll_inFlight := True\<rparr>)"

text \<open>The \<^verbatim>\<open>.then((data) => ...)\<close> callback of the poll: it returns normally in every
  branch.\<close>

definition poll_data :: "(json \<Rightarrow> string) \<Rightarrow> json \<Rightarrow> page \<Rightarrow> page" where
  "poll_data str data pg =
     (if \<not> truthy data \<or> \<not> typeof_object data then pg
      else
        let next = str data;
            pg1 = (if poll_last pg \<noteq> [] \<and> next \<noteq> poll_last pg then safeReload pg else pg)
        in pg1\<lparr>poll_last := next\<rparr>)"

text \<open>The promise chain of one poll once the request has settled:
  \<^verbatim>\<open>.then((res) => res.ok ? res.json() : null).then(data => ...).catch(ignore).finally(...)\<close>.\<close>

definition poll_settled :: "(json \<Rightarrow> string) \<Rightarrow> json response settled \<Rightarrow> page \<Rightarrow> page" where
  "poll_settled str fetched pg =
     (let pg1 =
            (case then_p fetched (\<lambda>res. if ok res then read_body res else Resolves JNull) of
               Rejects \<Rightarrow> pg
             | Resolves data \<Rightarrow> poll_data str data pg)
      in schedule 5000 (pg1\<lparr>poll_inFlight := False\<rparr>))"

text \<open>
  What can happen to a running page: a storage event, a broadcast message, a call of
  \<^verbatim>\<open>poll()\<close> (by the timer, by the visibility listener when the page is visible, or by
  \<^verbatim>\<open>watchServerToggle\<close> itself), the settling of the poll request in flight, and the completion
  of the background availability check.
\<close>

datatype signal =
    StorageEvent "string option"
  | BroadcastMessage json
  | PollTick bool
  | VisibilityChange bool
  | PollSettled "json response settled"
  | AvailabilityChecked "(string \<times> bool) list" ToggleState stored

record env =
  env_on :: "string list"
  env_allApps :: "string list"
  env_cached :: "snapshot option"
  env_stringify :: "json \<Rightarrow> string"

fun handle :: "env \<Rightarrow> page \<Rightarrow> signal \<Rightarrow> page" where
  "handle e pg (StorageEvent key) = on_storage key pg"
| "handle e pg (BroadcastMessage data) = on_broadcast data pg"
| "handle e pg (PollTick hidden) = (if watching pg then poll hidden pg else pg)"
| "handle e pg (VisibilityChange hidden) = (if watching pg \<and> \<not> hidden then poll hidden pg else pg)"
| "handle e pg (PollSettled fetched) =
     (if poll_inFlight pg then poll_settled (env_stringify e) fetched pg else pg)"
| "handle e pg (AvailabilityChecked availability serverToggle local_item) =
     runAvailabilityCheck (env_stringify e) (env_on e) (env_allApps e) (env_cached e)
       availability serverToggle local_item pg"

definition run :: "env \<Rightarrow> page \<Rightarrow> signal list \<Rightarrow> page" where
  "run e pg sigs = foldl (handle e) pg sigs"

text \<open>The payload that a settled poll request hands to the comparison: the parsed body of
  a 2xx response when it is an object (or an array).\<close>

fun payload :: "json response settled \<Rightarrow> json option" where
  "payload Rejects = None"
| "payload (Resolves res) =
     (case body res of
        None \<Rightarrow> None
      | Some data \<Rightarrow> if ok res \<and> truthy data \<and> typeof_object data then Some data else None)"


text \<open>The signals that belong to the poller.\<close>

fun poller_signal :: "signal \<Rightarrow> bool" where
  "poller_signal (PollTick _) = True"
| "poller_signal (VisibilityChange _) = True"
| "poller_signal (PollSettled _) = True"
| "poller_signal _ = False"


text \<open>The relation between the guard flag and the number of reloads issued so far.\<close>

definition guard_ok :: "page \<Rightarrow> bool" where
  "guard_ok pg = (reloads pg = (if reloadScheduled pg then 1 else 0))"


section \<open>Disabled rendering mode in the shell UI (root-config-shell-ui.ts)\<close>

text \<open>\<^verbatim>\<open>Object.entries(v)\<close> for an object or an array.\<close>

fun entries :: "json \<Rightarrow> (string \<times> json) list" where
  "entries (JObj es) = es"
| "entries (JArr vs) = zip (map show_nat [0..<length vs]) vs"
| "entries _ = []"

record modeConfig =
  mc_default :: "DisabledMode option"
  mc_apps :: "(string \<times> DisabledMode) list"

text \<open>\<^verbatim>\<open>normalizeDisabledModeConfig\<close> of root-config-shell-ui.ts; \<open>None\<close> is \<^verbatim>\<open>undefined\<close>
  or a missing argument.\<close>

definition normalizeDisabledModeConfig_ui :: "json option \<Rightarrow> modeConfig" where
  "normalizeDisabledModeConfig_ui config =
     (case config of
        None \<Rightarrow> \<lparr>mc_default = None, mc_apps = []\<rparr>
      | Some c \<Rightarrow>
          if \<not> truthy c then \<lparr>mc_default = None, mc_apps = []\<rparr>
          else
            (case mode_of (Some c) of
               Some m \<Rightarrow> \<lparr>mc_default = Some m, mc_apps = []\<rparr>
             | None \<Rightarrow>
                 let apps =
                       (case get_prop c ''apps'' of
                          Some a \<Rightarrow>
                            if truthy a \<and> typeof_object a
                            then foldl assign_mode [] (entries a) else []
                        | None \<Rightarrow> []);
                     def = mode_of (get_prop c ''default'')
                 in \<lparr>mc_default = def, mc_apps = apps\<rparr>))"

text \<open>Object spread \<^verbatim>\<open>{ ...a, ...b }\<close>: the properties of \<open>a\<close>, then those of \<open>b\<close>, are
  defined on a fresh object.\<close>

definition spread2 :: "(string \<times> 'v) list \<Rightarrow> (string \<times> 'v) list \<Rightarrow> (string \<times> 'v) list" where
  "spread2 a b = foldl (\<lambda>acc e. obj_put (fst e) (snd e) acc) [] (a @ b)"

text \<open>The device-local override that \<^verbatim>\<open>readDisabledModeConfig\<close> accepts from storage: one of
  the two mode strings or a plain object; anything else, and any failure, is \<^verbatim>\<open>null\<close>.\<close>

fun storageConfig :: "stored \<Rightarrow> json option" where
  "storageConfig (Item parsed) =
     (if parsed = JStr ''hide'' \<or> parsed = JStr ''placeholder''
         \<or> (typeof_object parsed \<and> parsed \<noteq> JNull \<and> \<not> isArray parsed)
      then Some parsed else None)"
| "storageConfig _ = None"

text \<open>\<open>windowMode\<close> is \<^verbatim>\<open>window.__mfeDisabledMode\<close>, \<open>item\<close> the stored value under
  \<^verbatim>\<open>mfe-disabled-mode\<close>.\<close>

definition readDisabledModeConfig :: "json option \<Rightarrow> stored \<Rightarrow> modeConfig" where
  "readDisabledModeConfig windowMode item =
     (let base = normalizeDisabledModeConfig_ui windowMode;
          override = normalizeDisabledModeConfig_ui (storageConfig item)
      in \<lparr>mc_default = (case mc_default override of Some d \<Rightarrow> Some d | None \<Rightarrow> mc_default base),
          mc_apps = spread2 (mc_apps base) (mc_apps override)\<rparr>)"

section \<open>Script loader (loadUmdScript)\<close>

datatype script_status = Loading | Loaded | Failed

text \<open>A script element created by \<^verbatim>\<open>loadUmdScript\<close>. A failed script has been removed from
  the document again.\<close>

record script =
  src :: string
  crossOrigin :: "string option"
  nonce :: "string option"
  async :: bool
  sstatus :: script_status

text \<open>
  \<^verbatim>\<open>umdLoads\<close> maps a cache key to the tracked promise stored for it. A promise is named by the
  position, in \<open>scripts\<close>, of the script element that was appended to the head when the
  promise was created: \<open>scripts\<close> lists every element ever appended, in order.
\<close>

record umd =
  umdLoads :: "string \<rightharpoonup> nat"
  scripts :: "script list"

definition cacheKey :: "bool \<Rightarrow> nat \<Rightarrow> string \<Rightarrow> string" where
  "cacheKey isLocalhost now url = (if isLocalhost then url @ ''?t='' @ show_nat now else url)"

text \<open>\<open>csp\<close> is the result of \<^verbatim>\<open>getCspNonce()\<close>, \<open>now\<close> that of \<^verbatim>\<open>Date.now()\<close>. The result is
  the promise handed to the caller and the new state.\<close>

definition loadUmdScript :: "bool \<Rightarrow> string option \<Rightarrow> umd \<Rightarrow> nat \<Rightarrow> string \<Rightarrow> nat \<times> umd" where
  "loadUmdScript isLocalhost csp st now url =
     (let key = cacheKey isLocalhost now url
      in case umdLoads st key of
           Some cached \<Rightarrow> (cached, st)
         | None \<Rightarrow>
             let el = \<lparr>src = key,
                       crossOrigin = (if \<not> isLocalhost then Some ''anonymous'' else None),
                       nonce = (case csp of Some n \<Rightarrow> if n \<noteq> [] then Some n else None
                                | None \<Rightarrow> None),
                       async = True, sstatus = Loading\<rparr>;
                 p = length (scripts st)
             in (p, st\<lparr>umdLoads := (umdLoads st)(key \<mapsto> p), scripts := scripts st @ [el]\<rparr>))"

text \<open>The \<^verbatim>\<open>load\<close> event of the script of promise \<open>p\<close>: the promise resolves.\<close>

definition script_onload :: "nat \<Rightarrow> umd \<Rightarrow> umd" where
  "script_onload p st =
     (if p < length (scripts st) \<and> sstatus (scripts st ! p) = Loading
      then st\<lparr>scripts := (scripts st)[p := (scripts st ! p)\<lparr>sstatus := Loaded\<rparr>]\<rparr>
      else st)"

text \<open>The \<^verbatim>\<open>error\<close> event: the element is removed, the promise rejects, and the handler of
  the tracked promise deletes the cache entry of the key.\<close>

definition script_onerror :: "nat \<Rightarrow> umd \<Rightarrow> umd" where
  "script_onerror p st =
     (if p < length (scripts st) \<and> sstatus (scripts st ! p) = Loading
      then st\<lparr>scripts := (scripts st)[p := (scripts st ! p)\<lparr>sstatus := Failed\<rparr>],
              umdLoads := (umdLoads st)(src (scripts st ! p) := None)\<rparr>
      else st)"

datatype umd_event = LoadCall nat string | ScriptLoad nat | ScriptError nat

text \<open>One event; for a call, the cache key and the promise returned to the caller.\<close>

fun umd_step :: "bool \<Rightarrow> string option \<Rightarrow> umd \<Rightarrow> umd_event \<Rightarrow> (string \<times> nat) list \<times> umd" where
  "umd_step lh csp st (LoadCall now url) =
     (let r = loadUmdScript lh csp st now url in ([(cacheKey lh now url, fst r)], snd r))"
| "umd_step lh csp st (ScriptLoad p) = ([], script_onload p st)"
| "umd_step lh csp st (ScriptError p) = ([], script_onerror p st)"

text \<open>A sequence of events: the (key, promise) pairs returned to the callers, in order, and
  the final state.\<close>

fun umd_run :: "bool \<Rightarrow> string option \<Rightarrow> umd \<Rightarrow> umd_event list \<Rightarrow> (string \<times> nat) list \<times> umd" where
  "umd_run lh csp st [] = ([], st)"
| "umd_run lh csp st (ev # evs) =
     (let r = umd_step lh csp st ev; rs = umd_run lh csp (snd r) evs
      in (fst r @ fst rs, snd rs))"

text \<open>No script that was loaded for key \<open>k\<close> fails during the events: the loads for \<open>k\<close>
  stay pending or resolved.\<close>

fun undisturbed :: "bool \<Rightarrow> string option \<Rightarrow> string \<Rightarrow> umd \<Rightarrow> umd_event list \<Rightarrow> bool" where
  "undisturbed lh csp k st [] = True"
| "undisturbed lh csp k st (ev # evs) =
     ((case ev of
         ScriptError p \<Rightarrow>
           \<not> (p < length (scripts st) \<and> sstatus (scripts st ! p) = Loading
               \<and> src (scripts st ! p) = k)
       | _ \<Rightarrow> True)
      \<and> undisturbed lh csp k (snd (umd_step lh csp st ev)) evs)"

text \<open>The number of script elements ever appended for key \<open>k\<close>.\<close>

definition insertions :: "string \<Rightarrow> umd \<Rightarrow> nat" where
  "insertions k st = length (filter (\<lambda>el. src el = k) (scripts st))"


text \<open>What sharing one load per key means for a sequence of events: every call for key \<open>k\<close>
  gets the same promise (the cached one, if there is one at the start), and at most one script
  element is appended for \<open>k\<close>, exactly one if the key is not cached at the start and some call
  is for \<open>k\<close>.\<close>

definition shared :: "bool \<Rightarrow> string option \<Rightarrow> string \<Rightarrow> umd \<Rightarrow> umd_event list \<Rightarrow> bool" where
  "shared lh csp k st evs =
   (case umdLoads st k of
      Some p0 \<Rightarrow>
        (\<forall>r\<in>set (fst (umd_run lh csp st evs)). fst r = k \<longrightarrow> snd r = p0)
        \<and> insertions k (snd (umd_run lh csp st evs)) = insertions k st
    | None \<Rightarrow>
        (\<exists>P. \<forall>r\<in>set (fst (umd_run lh csp st evs)). fst r = k \<longrightarrow> snd r = P)
        \<and> insertions k (snd (umd_run lh csp st evs))
            = insertions k st + (if k \<in> fst ` set (fst (umd_run lh csp st evs)) then 1 else 0))"


section \<open>Regular expressions\<close>

text \<open>
  Strings are lists of 8-bit characters, so a text is modelled as far as its code units are
  below 256. The regular expressions of the source use literals, character classes,
  grouping, alternation, \<^verbatim>\<open>*\<close> and \<^verbatim>\<open>?\<close> only; for these, \<^verbatim>\<open>RegExp.prototype.test\<close> decides
  whether some substring at an admissible start position belongs to the language of the
  expression (lazy and greedy quantifiers accept the same strings).
\<close>

datatype rexp =
    Zero
  | One
  | Chr char
  | In "char list"
  | NotIn "char list"
  | Seq rexp rexp
  | Alt rexp rexp
  | Star rexp

fun lit :: "string \<Rightarrow> rexp" where
  "lit [] = One"
| "lit (c # cs) = Seq (Chr c) (lit cs)"

definition Opt :: "rexp \<Rightarrow> rexp" where
  "Opt r = Alt r One"

fun nullable :: "rexp \<Rightarrow> bool" where
  "nullable Zero = False"
| "nullable One = True"
| "nullable (Chr c) = False"
| "nullable (In cs) = False"
| "nullable (NotIn cs) = False"
| "nullable (Seq r s) = (nullable r \<and> nullable s)"
| "nullable (Alt r s) = (nullable r \<or> nullable s)"
| "nullable (Star r) = True"

text \<open>Constructors that drop dead branches, to keep derivatives small.\<close>

fun alt :: "rexp \<Rightarrow> rexp \<Rightarrow> rexp" where
  "alt Zero s = s"
| "alt r Zero = r"
| "alt r s = Alt r s"

fun seq :: "rexp \<Rightarrow> rexp \<Rightarrow> rexp" where
  "seq Zero s = Zero"
| "seq r Zero = Zero"
| "seq One s = s"
| "seq r s = Seq r s"

text \<open>The expression for what may follow the character \<open>c\<close>.\<close>

fun deriv :: "char \<Rightarrow> rexp \<Rightarrow> rexp" where
  "deriv c Zero = Zero"
| "deriv c One = Zero"
| "deriv c (Chr d) = (if c = d then One else Zero)"
| "deriv c (In cs) = (if c \<in> set cs then One else Zero)"
| "deriv c (NotIn cs) = (if c \<in> set cs then Zero else One)"
| "deriv c (Seq r s) =
     (if nullable r then alt (seq (deriv c r) s) (deriv c s) else seq (deriv c r) s)"
| "deriv c (Alt r s) = alt (deriv c r) (deriv c s)"
| "deriv c (Star r) = seq (deriv c r) (Star r)"

text \<open>\<^verbatim>\<open>/^r/.test(s)\<close>: some prefix of \<open>s\<close> matches \<open>r\<close>.\<close>

fun test_start :: "rexp \<Rightarrow> string \<Rightarrow> bool" where
  "test_start r [] = nullable r"
| "test_start r (c # cs) = (nullable r \<or> test_start (deriv c r) cs)"

text \<open>\<^verbatim>\<open>/r/.test(s)\<close>: a match may start at any position.\<close>

fun test_any :: "rexp \<Rightarrow> string \<Rightarrow> bool" where
  "test_any r [] = nullable r"
| "test_any r (c # cs) = (test_start r (c # cs) \<or> test_any r cs)"

text \<open>\<^verbatim>\<open>/^r/m.test(s)\<close>: a match may start at the beginning or right after a line
  terminator.\<close>

definition line_terminators :: "char list" where
  "line_terminators = [CHR 0x0A, CHR 0x0D]"

fun test_after_terminator :: "rexp \<Rightarrow> string \<Rightarrow> bool" where
  "test_after_terminator r [] = False"
| "test_after_terminator r (c # cs) =
     ((c \<in> set line_terminators \<and> test_start r cs) \<or> test_after_terminator r cs)"

definition test_lines :: "rexp \<Rightarrow> string \<Rightarrow> bool" where
  "test_lines r s = (test_start r s \<or> test_after_terminator r s)"

text \<open>\<^verbatim>\<open>s.includes(needle)\<close>\<close>

fun str_includes :: "string \<Rightarrow> string \<Rightarrow> bool" where
  "str_includes [] needle = (needle = [])"
| "str_includes (c # cs) needle = (prefix needle (c # cs) \<or> str_includes cs needle)"

text \<open>The language of an expression.\<close>

inductive_set star :: "string set \<Rightarrow> string set" for A :: "string set" where
  star_empty: "[] \<in> star A"
| star_step: "u \<in> A \<Longrightarrow> v \<in> star A \<Longrightarrow> u @ v \<in> star A"

fun lang :: "rexp \<Rightarrow> string set" where
  "lang Zero = {}"
| "lang One = {[]}"
| "lang (Chr c) = {[c]}"
| "lang (In cs) = {[c] | c. c \<in> set cs}"
| "lang (NotIn cs) = {[c] | c. c \<notin> set cs}"
| "lang (Seq r s) = {u @ v | u v. u \<in> lang r \<and> v \<in> lang s}"
| "lang (Alt r s) = lang r \<union> lang s"
| "lang (Star r) = star (lang r)"

section \<open>Module format detection (detectModuleFormat)\<close>

datatype ModuleFormat = System | Esm | Umd | Unknown

text \<open>The characters that \<^verbatim>\<open>\s\<close> matches, among the code units below 256.\<close>

definition js_space :: "char list" where
  "js_space = [CHR 0x09, CHR 0x0A, CHR 0x0B, CHR 0x0C, CHR 0x0D, CHR 0x20, CHR 0xA0]"

definition ws :: rexp where
  "ws = Star (In js_space)"

text \<open>\<^verbatim>\<open>\/\/[^\n]*\n\<close> and \<^verbatim>\<open>\/\*[\s\S]*?\*\/\<close>\<close>

definition line_comment :: rexp where
  "line_comment = Seq (lit ''//'') (Seq (Star (NotIn [CHR 0x0A])) (Chr (CHR 0x0A)))"

definition block_comment :: rexp where
  "block_comment = Seq (lit ''/*'') (Seq (Star (NotIn [])) (lit ''*/''))"

definition use_strict :: string where
  "use_strict = CHR 0x22 # ''use strict'' @ [CHR 0x22] @ '';''"

text \<open>\<^verbatim>\<open>\s*(?:(?:\/\/[^\n]*\n|\/\*[\s\S]*?\*\/)\s*)*(?:"use strict";\s*)?\<close>, the part of the first
  expression before \<^verbatim>\<open>System\.register\(\<close>.\<close>

definition preamble_re :: rexp where
  "preamble_re =
     Seq ws (Seq (Star (Seq (Alt line_comment block_comment) ws))
                 (Opt (Seq (lit use_strict) ws)))"

definition system_register_re :: rexp where
  "system_register_re = Seq preamble_re (lit ''System.register('')"

definition hasSystemRegister :: "string \<Rightarrow> bool" where
  "hasSystemRegister head = test_start system_register_re head"

definition hasUmdWrapper :: "string \<Rightarrow> bool" where
  "hasUmdWrapper head =
     (test_any (lit ''typeof exports'') head
      \<and> test_any (lit ''define.amd'') head
      \<and> test_any (Alt (lit ''module.exports'') (lit ''exports['')) head)"

text \<open>\<^verbatim>\<open>/^\s*(import|export)\s/m\<close>\<close>

definition import_export_re :: rexp where
  "import_export_re = Seq ws (Seq (Alt (lit ''import'') (lit ''export'')) (In js_space))"

definition hasEsmSyntax :: "string \<Rightarrow> string \<Rightarrow> bool" where
  "hasEsmSyntax source tail =
     (test_lines import_export_re source
      \<or> str_includes source (CHR 0x0A # ''export{'')
      \<or> str_includes source (CHR 0x0A # ''export {'')
      \<or> str_includes tail ''export{''
      \<or> str_includes tail ''export {'')"

text \<open>\<open>full\<close> is the optional third argument.\<close>

definition analyzeSource :: "string \<Rightarrow> string \<Rightarrow> string option \<Rightarrow> ModuleFormat" where
  "analyzeSource head tail full =
     (if hasSystemRegister head then System
      else if hasUmdWrapper head then Umd
      else
        let source = (case full of Some f \<Rightarrow> f | None \<Rightarrow> head)
        in if hasEsmSyntax source tail then Esm else Unknown)"

text \<open>\<^verbatim>\<open>s.slice(-n)\<close>: the last \<open>n\<close> characters, all of \<open>s\<close> if it is shorter.\<close>

definition slice_last :: "nat \<Rightarrow> string \<Rightarrow> string" where
  "slice_last n s = drop (length s - n) s"

definition withCacheBust :: "bool \<Rightarrow> nat \<Rightarrow> string \<Rightarrow> string" where
  "withCacheBust isLocalhost now url =
     (if isLocalhost
      then url @ (if str_includes url ''?'' then ''&'' else ''?'') @ ''t='' @ show_nat now
      else url)"

text \<open>A call of \<^verbatim>\<open>fetchWithTimeout\<close> by the detector: the URL, whether the \<^verbatim>\<open>Range\<close>
  header \<^verbatim>\<open>bytes=0-8191\<close> is sent, and the timeout.\<close>

record request =
  req_url :: string
  req_range :: bool
  req_timeout :: nat

record detector =
  moduleFormatCache :: "string \<rightharpoonup> ModuleFormat"
  requests :: "request list"

text \<open>
  The whole promise chain of one call. \<open>net n\<close> is how the \<open>n\<close>-th request issued by the
  detector settles (a timeout is an abort, hence a rejection); \<open>now\<close> is \<^verbatim>\<open>Date.now()\<close>. The
  result is the value the returned promise resolves to (it never rejects: the chain ends in
  \<^verbatim>\<open>.catch(() => "unknown")\<close>) and the state afterwards.
\<close>

definition detectModuleFormat ::
  "bool \<Rightarrow> (nat \<Rightarrow> string response settled) \<Rightarrow> detector \<Rightarrow> nat \<Rightarrow> string \<Rightarrow> ModuleFormat \<times> detector" where
  "detectModuleFormat isLocalhost net st now url =
     (case moduleFormatCache st url of
        Some cached \<Rightarrow> (cached, st)
      | None \<Rightarrow>
          let bustUrl = withCacheBust isLocalhost now url;
              st1 = st\<lparr>requests := requests st @
                      [\<lparr>req_url = bustUrl, req_range = True,
                        req_timeout = (if isLocalhost then 1200 else 3000)\<rparr>]\<rparr>
          in case net (length (requests st)) of
               Rejects \<Rightarrow> (Unknown, st1)
             | Resolves res \<Rightarrow>
                 if \<not> ok res \<and> status res \<noteq> 206 then (Unknown, st1)
                 else if status res = 206 then
                   (case body res of
                      None \<Rightarrow> (Unknown, st1)
                    | Some head \<Rightarrow>
                        let format = analyzeSource head [] None
                        in if format \<noteq> Unknown
                           then (format, st1\<lparr>moduleFormatCache := (moduleFormatCache st1)(url \<mapsto> format)\<rparr>)
                           else
                             let st2 = st1\<lparr>requests := requests st1 @
                                         [\<lparr>req_url = bustUrl, req_range = False,
                                           req_timeout = (if isLocalhost then 2200 else 5000)\<rparr>]\<rparr>
                             in case net (length (requests st1)) of
                                  Rejects \<Rightarrow> (Unknown, st2)
                                | Resolves r \<Rightarrow>
                                    (case (if ok r then body r else Some []) of
                                       None \<Rightarrow> (Unknown, st2)
                                     | Some full \<Rightarrow>
                                         let tail = slice_last 4096 full;
                                             fmt = analyzeSource (take 8192 full) tail (Some full)
                                         in (fmt, st2\<lparr>moduleFormatCache :=
                                                      (moduleFormatCache st2)(url \<mapsto> fmt)\<rparr>)))
                 else
                   (case body res of
                      None \<Rightarrow> (Unknown, st1)
                    | Some source \<Rightarrow>
                        let head = take 8192 source;
                            tail = slice_last 4096 source;
                            format = analyzeSource head tail (Some source)
                        in (format, st1\<lparr>moduleFormatCache := (moduleFormatCache st1)(url \<mapsto> format)\<rparr>)))"


text \<open>
  What may precede \<^verbatim>\<open>System.register(\<close> in words: white space; then comments, each
  followed by white space (a line comment runs to the next line feed, a block comment from
  \<^verbatim>\<open>/*\<close> to a \<^verbatim>\<open>*/\<close>); then, optionally, the directive \<^verbatim>\<open>"use strict";\<close> and white space.
\<close>

definition spaces :: "string set" where
  "spaces = {w. set w \<subseteq> set js_space}"

inductive_set comments :: "string set" where
  no_comment: "[] \<in> comments"
| line_comment:
    "CHR 0x0A \<notin> set b \<Longrightarrow> w \<in> spaces \<Longrightarrow> cs \<in> comments
     \<Longrightarrow> ''//'' @ b @ [CHR 0x0A] @ w @ cs \<in> comments"
| block_comment:
    "w \<in> spaces \<Longrightarrow> cs \<in> comments \<Longrightarrow> ''/*'' @ b @ ''*/'' @ w @ cs \<in> comments"

definition directive :: "string set" where
  "directive = {[]} \<union> {use_strict @ w | w. w \<in> spaces}"

text \<open>
  Whether a call on a URL that is not memoized stores its result: the range request is
  answered with 206 or 2xx, its body can be read, and, when a 206 body is inconclusive, the
  second request is not rejected and a 2xx body of it can be read.
\<close>

definition probe_completes :: "(nat \<Rightarrow> string response settled) \<Rightarrow> detector \<Rightarrow> bool" where
  "probe_completes net st =
     (case net (length (requests st)) of
        Rejects \<Rightarrow> False
      | Resolves res \<Rightarrow>
          (ok res \<or> status res = 206)
          \<and> (case body res of
                None \<Rightarrow> False
              | Some head \<Rightarrow>
                  status res = 206 \<and> analyzeSource head [] None = Unknown \<longrightarrow>
                    (case net (Suc (length (requests st))) of
                       Rejects \<Rightarrow> False
                     | Resolves r \<Rightarrow> ok r \<longrightarrow> body r \<noteq> None)))"

definition range_request :: "bool \<Rightarrow> nat \<Rightarrow> string \<Rightarrow> request" where
  "range_request isLocalhost now url =
     \<lparr>req_url = withCacheBust isLocalhost now url, req_range = True,
      req_timeout = (if isLocalhost then 1200 else 3000)\<rparr>"

definition full_request :: "bool \<Rightarrow> nat \<Rightarrow> string \<Rightarrow> request" where
  "full_request isLocalhost now url =
     \<lparr>req_url = withCacheBust isLocalhost now url, req_range = False,
      req_timeout = (if isLocalhost then 2200 else 5000)\<rparr>"


section \<open>Application loader (loadApp)\<close>

definition umdApps :: "(string \<times> string \<times> string) list" where
  "umdApps =
     [(''@org/profile-vue'', ''//localhost:9002/profile-vue.js'', ''profileVue''),
      (''@org/playground-vanilla'', ''//localhost:9008/org-playground-vanilla.js'', ''playgroundVanilla''),
      (''@org/simple-vanilla'', ''//localhost:9009/org-simple-vanilla.js'', ''simpleVanilla''),
      (''@org/dashboard-vue'', ''//localhost:9004/dashboard-vue.js'', ''dashboardVue'')]"

definition localAppUrls :: "(string \<times> string) list" where
  "localAppUrls =
     [(''@org/header-react'', ''http://localhost:9012/org-header-react.js''),
      (''@org/footer-react'', ''http://localhost:9013/org-footer-react.js''),
      (''@org/catalog'', ''http://localhost:9001/org-catalog.js''),
      (''@org/profile-vue'', ''http://localhost:9002/profile-vue.js''),
      (''@org/dashboard-vue'', ''http://localhost:9004/dashboard-vue.js''),
      (''@org/checkout-angular'', ''http://localhost:9003/main.js''),
      (''@org/auth-angular'', ''http://localhost:9010/main.js''),
      (''@org/playground-angular'', ''http://localhost:9005/main.js''),
      (''@org/playground-vue'', ''http://localhost:9006/playground-vue.js''),
      (''@org/playground-react'', ''http://localhost:9007/org-playground.js''),
      (''@org/playground-vanilla'', ''http://localhost:9008/org-playground-vanilla.js''),
      (''@org/playground-svelte'', ''http://localhost:9011/org-playground-svelte.js''),
      (''@org/simple-vanilla'', ''http://localhost:9009/org-simple-vanilla.js'')]"

definition systemFirstApps :: "string list" where
  "systemFirstApps =
     [''@org/header-react'', ''@org/footer-react'', ''@org/catalog'', ''@org/playground-react'',
      ''@org/checkout-angular'', ''@org/auth-angular'', ''@org/playground-angular'',
      ''@org/playground-vue'', ''@org/playground-svelte'', ''@org/simple-vanilla'']"

definition systemFirstUmdGlobals :: "(string \<times> string) list" where
  "systemFirstUmdGlobals = [(''@org/playground-vue'', ''playgroundVue'')]"

text \<open>A lifecycle function of the no-op handle is represented by the promise it returns.\<close>

record app_handle =
  bootstrap :: "unit settled"
  mount :: "unit settled"
  unmount :: "unit settled"

definition createUnavailableApp :: "string \<Rightarrow> app_handle" where
  "createUnavailableApp name = \<lparr>bootstrap = Resolves (), mount = Resolves (), unmount = Resolves ()\<rparr>"

datatype import_call = SystemImport string | NativeImport string

datatype perf_entry = Mark string | Measure string string string

text \<open>
  What \<^verbatim>\<open>loadApp\<close> has reached when it first has to wait for code to arrive: the promise is
  already resolved with a handle, or a script load is awaited (the promise of
  \<^verbatim>\<open>loadUmdScript\<close> and the global to read afterwards), or a dynamic import has been started.
  What follows the arrival (wrapping the lifecycles, the fallbacks after a failure) is not
  part of the model.
\<close>

datatype load_outcome =
    Ready app_handle
  | AwaitScript nat string
  | AwaitImport import_call

text \<open>Everything through which \<^verbatim>\<open>loadApp\<close> can reach the network, and the performance
  entries.\<close>

record loader =
  ld_umd :: umd
  ld_detector :: detector
  ld_imports :: "import_call list"
  ld_perf :: "perf_entry list"

text \<open>The platform: \<^verbatim>\<open>isLocalhost\<close>, whether \<^verbatim>\<open>performance.mark\<close> exists, whether
  \<^verbatim>\<open>window.System.import\<close> exists, and the result of \<^verbatim>\<open>getCspNonce()\<close>.\<close>

record platform =
  pf_isLocalhost :: bool
  pf_perf :: bool
  pf_system :: bool
  pf_csp :: "string option"

definition finalizeLoadMetrics :: "platform \<Rightarrow> string \<Rightarrow> loader \<Rightarrow> loader" where
  "finalizeLoadMetrics pf name ld =
     (if pf_perf pf
      then ld\<lparr>ld_perf := ld_perf ld @
                [Mark (''mfe:'' @ name @ '':load:end''),
                 Measure (''mfe:'' @ name @ '':load'') (''mfe:'' @ name @ '':load:start'')
                   (''mfe:'' @ name @ '':load:end'')]\<rparr>
      else ld)"

definition start_import :: "import_call \<Rightarrow> loader \<Rightarrow> load_outcome \<times> loader" where
  "start_import c ld = (AwaitImport c, ld\<lparr>ld_imports := ld_imports ld @ [c]\<rparr>)"

text \<open>\<^verbatim>\<open>systemImportByUrl\<close>\<close>

definition systemImportByUrl :: "platform \<Rightarrow> string \<Rightarrow> import_call" where
  "systemImportByUrl pf url = (if pf_system pf then SystemImport url else NativeImport url)"

definition start_script :: "platform \<Rightarrow> nat \<Rightarrow> string \<Rightarrow> string \<Rightarrow> loader \<Rightarrow> load_outcome \<times> loader" where
  "start_script pf now url global ld =
     (let r = loadUmdScript (pf_isLocalhost pf) (pf_csp pf) (ld_umd ld) now url
      in (AwaitScript (fst r) global, ld\<lparr>ld_umd := snd r\<rparr>))"

text \<open>
  \<^verbatim>\<open>loadApp({ name })\<close>. \<open>runtimeDisabled\<close> is the current content of \<^verbatim>\<open>runtimeDisabledApps\<close>,
  \<open>net\<close> the network as the detector sees it, \<open>now\<close> the time of the call and \<open>later\<close> the
  time at which the detection has settled.
  The test \<^verbatim>\<open>name in umdApps\<close> is the lookup in the table; names that \<^verbatim>\<open>umdApps\<close> inherits
  from \<^verbatim>\<open>Object.prototype\<close> (such as \<^verbatim>\<open>toString\<close>), for which the test also holds, are no
  application names and are outside the model of the branches behind the disabled test.
\<close>

definition loadApp ::
  "platform \<Rightarrow> (nat \<Rightarrow> string response settled) \<Rightarrow> string list \<Rightarrow> loader \<Rightarrow> nat \<Rightarrow> nat \<Rightarrow> string
   \<Rightarrow> load_outcome \<times> loader" where
  "loadApp pf net runtimeDisabled ld now later name =
     (let ld0 = (if pf_perf pf
                 then ld\<lparr>ld_perf := ld_perf ld @ [Mark (''mfe:'' @ name @ '':load:start'')]\<rparr>
                 else ld)
      in if name \<in> set runtimeDisabled
         then (Ready (createUnavailableApp name), finalizeLoadMetrics pf name ld0)
         else
           (case map_of umdApps name of
              Some app \<Rightarrow> start_script pf now (fst app) (snd app) ld0
            | None \<Rightarrow>
                if name \<in> set systemFirstApps then
                  (case (if pf_isLocalhost pf then map_of localAppUrls name else None) of
                     Some localUrl \<Rightarrow>
                       if localUrl = [] then
                         start_import (if pf_system pf then SystemImport name else NativeImport name) ld0
                       else
                         let d = detectModuleFormat (pf_isLocalhost pf) net (ld_detector ld0) now localUrl;
                             ld1 = ld0\<lparr>ld_detector := snd d\<rparr>;
                             importUrl = withCacheBust (pf_isLocalhost pf) later localUrl
                         in (case fst d of
                               System \<Rightarrow> start_import (systemImportByUrl pf importUrl) ld1
                             | Umd \<Rightarrow>
                                 start_script pf later importUrl
                                   (case map_of systemFirstUmdGlobals name of
                                      Some g \<Rightarrow> if g \<noteq> [] then g else name
                                    | None \<Rightarrow> name) ld1
                             | Esm \<Rightarrow> start_import (NativeImport importUrl) ld1
                             | Unknown \<Rightarrow> start_import (NativeImport importUrl) ld1)
                   | None \<Rightarrow>
                       start_import (if pf_system pf then SystemImport name else NativeImport name) ld0)
                else start_import (NativeImport name) ld0))"


section \<open>Basic facts about sets as lists\<close>

lemma set_foldl_set_add: "set (foldl set_add acc xs) = set acc \<union> set xs"
  by (induction xs arbitrary: acc) (auto simp: set_add_def)

lemma set_new_Set: "set (new_Set xs) = set xs"
  by (simp add: new_Set_def set_foldl_set_add)

lemma distinct_foldl_set_add: "distinct acc \<Longrightarrow> distinct (foldl set_add acc xs)"
  by (induction xs arbitrary: acc) (auto simp: set_add_def)

lemma distinct_new_Set: "distinct (new_Set xs)"
  by (simp add: new_Set_def distinct_foldl_set_add)

lemma set_sanitizeDisabledApps: "set (sanitizeDisabledApps on names) = set names - set on"
  by (auto simp: sanitizeDisabledApps_def set_new_Set)

lemma set_foldl_runtime:
  "set (foldl (\<lambda>acc name. if name \<notin> set on then set_add acc name else acc) acc xs)
     = set acc \<union> (set xs - set on)"
  by (induction xs arbitrary: acc) (auto simp: set_add_def)

lemma set_setRuntimeDisabledApps: "set (setRuntimeDisabledApps on d) = set d - set on"
  by (simp add: setRuntimeDisabledApps_def set_foldl_runtime)

section \<open>Facts about reconciliation\<close>


lemma set_emit:
  "\<exists>d. dispatched (emitDisabledApps on s l m pg) = dispatched pg @ [MfeToggle d m]
       \<and> set d = (set s \<union> set l) - set on
       \<and> mfeServerDisabled (emitDisabledApps on s l m pg) = Some (sanitizeDisabledApps on s)"
  by (auto simp: emitDisabledApps_def Let_def set_sanitizeDisabledApps)

lemma runtime_emit [simp]: "runtimeDisabledApps (emitDisabledApps on s l m pg) = runtimeDisabledApps pg"
  by (simp add: emitDisabledApps_def Let_def)

lemma runtime_emitAvailability [simp]: "runtimeDisabledApps (emitAvailability a pg) = runtimeDisabledApps pg"
  by (simp add: emitAvailability_def)

lemma runtime_register [simp]: "runtimeDisabledApps (register_and_start a pg) = runtimeDisabledApps pg"
  by (simp add: register_and_start_def)

lemma runtime_safeReload [simp]: "runtimeDisabledApps (safeReload pg) = runtimeDisabledApps pg"
  by (simp add: safeReload_def)

lemma runtime_start_production:
  "set (runtimeDisabledApps (start_production on allApps t l pg)) = (set l \<union> set (disabled t)) - set on"
  by (auto simp: start_production_def Let_def set_setRuntimeDisabledApps set_sanitizeDisabledApps)

lemma runtime_start_from_cache:
  "set (runtimeDisabledApps (start_from_cache on allApps c li pg))
     = (set (snap_disabled c) \<union> set (getDisabledApps on li)) - set on"
  by (auto simp: start_from_cache_def Let_def set_setRuntimeDisabledApps set_sanitizeDisabledApps)

lemma runtime_runAvailabilityCheck:
  "set (runtimeDisabledApps (runAvailabilityCheck str on allApps c av t li pg))
     = (set (disabled t) \<union> set (getDisabledApps on li)) - set on"
  by (auto simp: runAvailabilityCheck_def Let_def set_setRuntimeDisabledApps
      set_sanitizeDisabledApps set_new_Set split: option.splits)

section \<open>The always-on exemption\<close>

text \<open>
  Claim C1. Whatever collection of names is sanitized, the result shares no name with the
  always-on exemption set; the same holds for the set installed by
  \<^verbatim>\<open>setRuntimeDisabledApps\<close>, for the runtime-disabled set after each of the three startup and
  reconciliation paths (whatever the remote state, the device-local list, the cached snapshot
  and the probe results are), and for the list published in the toggle event and in
  \<^verbatim>\<open>window.__mfeServerDisabled\<close>.
\<close>

theorem sanitize_excludes_always_on:
  "set (sanitizeDisabledApps on X) \<inter> set on = {}
   \<and> set (setRuntimeDisabledApps on X) \<inter> set on = {}
   \<and> set (runtimeDisabledApps (start_production on allApps t l pg)) \<inter> set on = {}
   \<and> set (runtimeDisabledApps (start_from_cache on allApps c li pg)) \<inter> set on = {}
   \<and> set (runtimeDisabledApps (runAvailabilityCheck str on allApps co av t li pg)) \<inter> set on = {}
   \<and> (\<exists>d. dispatched (emitDisabledApps on s l m pg) = dispatched pg @ [MfeToggle d m]
          \<and> set d \<inter> set on = {})
   \<and> (\<exists>d. mfeServerDisabled (emitDisabledApps on s l m pg) = Some d \<and> set d \<inter> set on = {})"
  using set_emit[of on s l m pg]
  by (auto simp: set_sanitizeDisabledApps set_setRuntimeDisabledApps runtime_start_production
      runtime_start_from_cache runtime_runAvailabilityCheck)


theorem sanitize_excludes_always_on_witness:
  "sanitizeDisabledApps [''@org/catalog''] [''@org/profile-vue'', ''@org/catalog'', ''@org/profile-vue'']
     = [''@org/profile-vue'']
   \<and> set (sanitizeDisabledApps [''@org/catalog'']
            [''@org/profile-vue'', ''@org/catalog'', ''@org/profile-vue''])
       \<inter> set [''@org/catalog''] = {}"
  using sanitize_excludes_always_on
    [of "[''@org/catalog'']" "[''@org/profile-vue'', ''@org/catalog'', ''@org/profile-vue'']"]
  by (simp add: sanitizeDisabledApps_def new_Set_def set_add_def)

section \<open>Facts about the reload guard\<close>


lemma guard_safeReload: "guard_ok pg \<Longrightarrow> guard_ok (safeReload pg)"
  by (simp add: guard_ok_def safeReload_def)

lemma safeReload_scheduled [simp]: "reloadScheduled (safeReload pg)"
  by (simp add: safeReload_def)

lemma guard_fields:
  "reloads p' = reloads p \<Longrightarrow> reloadScheduled p' = reloadScheduled p \<Longrightarrow> guard_ok p \<Longrightarrow> guard_ok p'"
  by (simp add: guard_ok_def)

lemma emit_guard_fields [simp]:
  "reloads (emitDisabledApps on s l m pg) = reloads pg"
  "reloadScheduled (emitDisabledApps on s l m pg) = reloadScheduled pg"
  "reloads (emitAvailability a pg) = reloads pg"
  "reloadScheduled (emitAvailability a pg) = reloadScheduled pg"
  "reloads (register_and_start apps pg) = reloads pg"
  "reloadScheduled (register_and_start apps pg) = reloadScheduled pg"
  by (simp_all add: emitDisabledApps_def emitAvailability_def register_and_start_def Let_def)

lemma runAvailabilityCheck_reload:
  "reloads (runAvailabilityCheck str on allApps cached av t li pg)
     = (case cached of None \<Rightarrow> reloads pg
        | Some c \<Rightarrow> if diverged str c (new_Set (map fst (filter snd av))) (new_Set (disabled t))
                         (disabledMode t)
                      then reloads (safeReload pg) else reloads pg)"
  "reloadScheduled (runAvailabilityCheck str on allApps cached av t li pg)
     = (case cached of None \<Rightarrow> reloadScheduled pg
        | Some c \<Rightarrow> if diverged str c (new_Set (map fst (filter snd av))) (new_Set (disabled t))
                         (disabledMode t)
                      then True else reloadScheduled pg)"
  by (simp_all add: runAvailabilityCheck_def Let_def safeReload_def split: option.splits)

lemma guard_runAvailabilityCheck:
  "guard_ok pg \<Longrightarrow> guard_ok (runAvailabilityCheck str on allApps cached av t li pg)"
  by (simp add: guard_ok_def runAvailabilityCheck_reload safeReload_def split: option.splits)

lemma guard_poll_settled: "guard_ok pg \<Longrightarrow> guard_ok (poll_settled str f pg)"
  by (auto simp: poll_settled_def poll_data_def schedule_def Let_def guard_ok_def safeReload_def
      split: settled.splits)

lemma guard_handle: "guard_ok pg \<Longrightarrow> guard_ok (handle e pg s)"
proof (cases s)
  case (PollSettled f)
  then show "guard_ok pg \<Longrightarrow> ?thesis" by (simp add: guard_poll_settled)
next
  case (AvailabilityChecked av t li)
  then show "guard_ok pg \<Longrightarrow> ?thesis" by (simp add: guard_runAvailabilityCheck)
qed (auto simp: on_storage_def on_broadcast_def poll_def schedule_def guard_ok_def safeReload_def)

lemma guard_run: "guard_ok pg \<Longrightarrow> guard_ok (run e pg sigs)"
  unfolding run_def by (induction sigs arbitrary: pg) (auto intro: guard_handle)

lemma scheduled_handle: "reloadScheduled pg \<Longrightarrow> reloadScheduled (handle e pg s)"
  by (cases s)
     (auto simp: on_storage_def on_broadcast_def poll_def schedule_def safeReload_def
        poll_settled_def poll_data_def Let_def runAvailabilityCheck_reload
        split: settled.splits option.splits)

lemma scheduled_run: "reloadScheduled pg \<Longrightarrow> reloadScheduled (run e pg sigs)"
  unfolding run_def by (induction sigs arbitrary: pg) (auto intro: scheduled_handle)

lemma run_append: "run e pg (xs @ ys) = run e (run e pg xs) ys"
  by (simp add: run_def)

lemma run_Cons: "run e pg (s # ys) = run e (handle e pg s) ys"
  by (simp add: run_def)

lemma diverged_scenario:
  "A \<noteq> B \<Longrightarrow>
   diverged str \<lparr>snap_available = new_Set [A, B], snap_disabled = new_Set [], snap_disabledMode = m\<rparr>
     (new_Set [A]) (new_Set []) m"
  by (simp add: diverged_def new_Set_def set_add_def)

section \<open>Divergence and the reload guard\<close>

text \<open>
  Claim C5. With a cached snapshot whose available set is \<open>{A, B}\<close> and whose disabled set
  is empty, and a fresh probe that finds only \<open>A\<close> available and nothing disabled (the
  rendering modes being equal), the comparison reports a divergence and the availability
  check schedules a reload, which it issues itself unless one was scheduled before. In any
  sequence of signals that contains this check exactly one reload is issued in total, and no
  sequence of signals (storage events, broadcast messages, polls, availability checks) ever
  issues more than one.
\<close>

theorem divergence_reloads_once:
  assumes "A \<noteq> B"
    and "env_cached e = Some \<lparr>snap_available = new_Set [A, B], snap_disabled = new_Set [],
                              snap_disabledMode = m\<rparr>"
    and "map fst (filter snd av) = [A]"
    and "disabled t = []" and "disabledMode t = m"
    and "guard_ok pg"
  shows "diverged (env_stringify e)
           \<lparr>snap_available = new_Set [A, B], snap_disabled = new_Set [], snap_disabledMode = m\<rparr>
           (new_Set (map fst (filter snd av))) (new_Set (disabled t)) (disabledMode t)
       \<and> reloadScheduled (handle e pg (AvailabilityChecked av t li))
       \<and> (\<not> reloadScheduled pg \<longrightarrow>
            reloads (handle e pg (AvailabilityChecked av t li)) = reloads pg + 1)
       \<and> reloads (run e pg (pre @ AvailabilityChecked av t li # post)) = 1
       \<and> reloads (run e pg sigs) \<le> 1"
proof -
  let ?c = "\<lparr>snap_available = new_Set [A, B], snap_disabled = new_Set [], snap_disabledMode = m\<rparr>"
  have d: "diverged (env_stringify e) ?c (new_Set (map fst (filter snd av)))
           (new_Set (disabled t)) (disabledMode t)"
    using assms(1,3,4,5) diverged_scenario[of A B "env_stringify e" m] by simp
  have sch: "\<And>p. reloadScheduled (handle e p (AvailabilityChecked av t li))"
    using d assms(2) by (simp add: runAvailabilityCheck_reload)
  have 2: "\<not> reloadScheduled pg \<longrightarrow>
            reloads (handle e pg (AvailabilityChecked av t li)) = reloads pg + 1"
    using d assms(2) by (simp add: runAvailabilityCheck_reload safeReload_def)
  have g: "\<And>xs. guard_ok (run e pg xs)" using assms(6) by (rule guard_run)
  have "reloadScheduled (run e pg (pre @ AvailabilityChecked av t li # post))"
    unfolding run_append run_Cons by (intro scheduled_run sch)
  with g[of "pre @ AvailabilityChecked av t li # post"]
  have 3: "reloads (run e pg (pre @ AvailabilityChecked av t li # post)) = 1"
    by (simp add: guard_ok_def)
  have 4: "reloads (run e pg sigs) \<le> 1" using g[of sigs] by (simp add: guard_ok_def)
  show ?thesis using d sch[of pg] 2 3 4 assms(2) by simp
qed


theorem divergence_reloads_once_witness:
  "guard_ok initial_page
   \<and> reloads (handle
        \<lparr>env_on = [], env_allApps = [''@org/catalog'', ''@org/profile-vue''],
         env_cached = Some \<lparr>snap_available = new_Set [''@org/catalog'', ''@org/profile-vue''],
                             snap_disabled = new_Set [], snap_disabledMode = None\<rparr>,
         env_stringify = (\<lambda>_. ''null'')\<rparr>
        initial_page
        (AvailabilityChecked [(''@org/catalog'', True), (''@org/profile-vue'', False)]
           \<lparr>disabled = [], disabledMode = None\<rparr> NoItem)) = 1
   \<and> reloads (run
        \<lparr>env_on = [], env_allApps = [''@org/catalog'', ''@org/profile-vue''],
         env_cached = Some \<lparr>snap_available = new_Set [''@org/catalog'', ''@org/profile-vue''],
                             snap_disabled = new_Set [], snap_disabledMode = None\<rparr>,
         env_stringify = (\<lambda>_. ''null'')\<rparr>
        initial_page
        ([StorageEvent (Some ''mfe-disabled'')] @
         AvailabilityChecked [(''@org/catalog'', True), (''@org/profile-vue'', False)]
           \<lparr>disabled = [], disabledMode = None\<rparr> NoItem
         # [BroadcastMessage (JObj [(''type'', JStr ''mfe-toggle'')])])) = 1"
proof -
  have g: "guard_ok initial_page" by (simp add: guard_ok_def initial_page_def)
  have ne: "''@org/catalog'' \<noteq> ''@org/profile-vue''" by simp
  have n: "\<not> reloadScheduled initial_page" "reloads initial_page = 0"
    by (simp_all add: initial_page_def)
  show ?thesis
    using g n divergence_reloads_once[OF ne _ _ _ _ g,
        of "\<lparr>env_on = [], env_allApps = [''@org/catalog'', ''@org/profile-vue''],
         env_cached = Some \<lparr>snap_available = new_Set [''@org/catalog'', ''@org/profile-vue''],
                             snap_disabled = new_Set [], snap_disabledMode = None\<rparr>,
         env_stringify = (\<lambda>_. ''null'')\<rparr>" None
         "[(''@org/catalog'', True), (''@org/profile-vue'', False)]"
         "\<lparr>disabled = [], disabledMode = None\<rparr>" NoItem
         "[StorageEvent (Some ''mfe-disabled'')]"
         "[BroadcastMessage (JObj [(''type'', JStr ''mfe-toggle'')])]"]
    by simp
qed

section \<open>Facts about the poller\<close>


lemma reloads_schedule [simp]: "reloads (schedule ms pg) = reloads pg"
  and poll_last_schedule [simp]: "poll_last (schedule ms pg) = poll_last pg"
  by (simp_all add: schedule_def)

lemma reloads_poll [simp]: "reloads (poll h pg) = reloads pg"
  and poll_last_poll [simp]: "poll_last (poll h pg) = poll_last pg"
  by (simp_all add: poll_def)

lemma poll_last_safeReload [simp]: "poll_last (safeReload pg) = poll_last pg"
  by (simp add: safeReload_def)

lemma payload_chain:
  "then_p f (\<lambda>res. if ok res then read_body res else Resolves JNull) = Resolves data
   \<Longrightarrow> truthy data \<Longrightarrow> typeof_object data \<Longrightarrow> payload f = Some data"
  by (cases f) (auto simp: read_body_def split: if_splits option.splits)

lemma payload_chain_conv:
  "payload f = Some data \<Longrightarrow>
   then_p f (\<lambda>res. if ok res then read_body res else Resolves JNull) = Resolves data
   \<and> truthy data \<and> typeof_object data"
  by (cases f) (auto simp: read_body_def split: if_splits option.splits)

lemma poll_settled_valid:
  "payload f = Some data \<Longrightarrow>
   poll_last (poll_settled str f pg) = str data
   \<and> reloads (poll_settled str f pg)
       = reloads (if poll_last pg \<noteq> [] \<and> str data \<noteq> poll_last pg then safeReload pg else pg)"
  by (drule payload_chain_conv) (simp add: poll_settled_def poll_data_def Let_def)

lemma poll_settled_invalid:
  "payload f = None \<Longrightarrow>
   poll_last (poll_settled str f pg) = poll_last pg \<and> reloads (poll_settled str f pg) = reloads pg"
  by (cases f)
     (auto simp: poll_settled_def poll_data_def Let_def read_body_def split: option.splits if_splits)

lemma poll_settled_reload:
  assumes "reloads (poll_settled str f pg) \<noteq> reloads pg"
  shows "\<exists>data. payload f = Some data \<and> poll_last pg \<noteq> [] \<and> str data \<noteq> poll_last pg"
proof (cases "payload f")
  case None
  with assms show ?thesis by (simp add: poll_settled_invalid)
next
  case (Some data)
  with assms poll_settled_valid[OF Some, of str pg] show ?thesis
    by (auto split: if_splits)
qed

lemma run_snoc: "run e pg (sigs @ [s]) = handle e (run e pg sigs) s"
  by (simp add: run_def)

lemma poller_trace:
  assumes "\<forall>s\<in>set sigs. poller_signal s" and "poll_last pg = []"
  shows "(poll_last (run e pg sigs) = []
          \<or> (\<exists>pre f post d. sigs = pre @ PollSettled f # post \<and> payload f = Some d
                \<and> env_stringify e d = poll_last (run e pg sigs)))
       \<and> (reloads (run e pg sigs) \<noteq> reloads pg \<longrightarrow>
            (\<exists>pre f1 mid f2 post d1 d2.
               sigs = pre @ PollSettled f1 # mid @ PollSettled f2 # post
               \<and> payload f1 = Some d1 \<and> payload f2 = Some d2
               \<and> env_stringify e d1 \<noteq> env_stringify e d2))"
  using assms
proof (induction sigs rule: rev_induct)
  case Nil
  then show ?case by (simp add: run_def)
next
  case (snoc s sigs)
  let ?p = "run e pg sigs"
  from snoc have IH1: "poll_last ?p = []
          \<or> (\<exists>pre f post d. sigs = pre @ PollSettled f # post \<and> payload f = Some d
                \<and> env_stringify e d = poll_last ?p)"
    and IH2: "reloads ?p \<noteq> reloads pg \<longrightarrow>
            (\<exists>pre f1 mid f2 post d1 d2.
               sigs = pre @ PollSettled f1 # mid @ PollSettled f2 # post
               \<and> payload f1 = Some d1 \<and> payload f2 = Some d2
               \<and> env_stringify e d1 \<noteq> env_stringify e d2)"
    by auto
  have ext1: "\<And>P. (\<exists>pre f post d. sigs = pre @ PollSettled f # post \<and> P f d)
      \<Longrightarrow> (\<exists>pre f post d. sigs @ [s] = pre @ PollSettled f # post \<and> P f d)"
    by force
  have ext2: "\<And>P. (\<exists>pre f1 mid f2 post d1 d2.
               sigs = pre @ PollSettled f1 # mid @ PollSettled f2 # post \<and> P f1 f2 d1 d2)
      \<Longrightarrow> (\<exists>pre f1 mid f2 post d1 d2.
               sigs @ [s] = pre @ PollSettled f1 # mid @ PollSettled f2 # post \<and> P f1 f2 d1 d2)"
    by force
  from snoc.prems have ps: "poller_signal s" by simp
  show ?case
  proof (cases "\<exists>f. s = PollSettled f \<and> poll_inFlight ?p")
    case False
    then have same: "poll_last (handle e ?p s) = poll_last ?p" "reloads (handle e ?p s) = reloads ?p"
      using ps by (cases s; simp)+
    show ?thesis
      unfolding run_snoc same
      using IH1 IH2 ext1[of "\<lambda>f d. payload f = Some d \<and> env_stringify e d = poll_last ?p"]
        ext2[of "\<lambda>f1 f2 d1 d2. payload f1 = Some d1 \<and> payload f2 = Some d2
               \<and> env_stringify e d1 \<noteq> env_stringify e d2"]
      by blast
  next
    case True
    then obtain f where s: "s = PollSettled f" and fl: "poll_inFlight ?p" by blast
    have h: "handle e ?p s = poll_settled (env_stringify e) f ?p" using s fl by simp
    show ?thesis
    proof (cases "payload f")
      case None
      then have same: "poll_last (handle e ?p s) = poll_last ?p" "reloads (handle e ?p s) = reloads ?p"
        unfolding h by (simp_all add: poll_settled_invalid)
      show ?thesis
        unfolding run_snoc same
        using IH1 IH2 ext1[of "\<lambda>f d. payload f = Some d \<and> env_stringify e d = poll_last ?p"]
          ext2[of "\<lambda>f1 f2 d1 d2. payload f1 = Some d1 \<and> payload f2 = Some d2
               \<and> env_stringify e d1 \<noteq> env_stringify e d2"]
        by blast
    next
      case (Some d)
      note v = poll_settled_valid[OF Some, of "env_stringify e" ?p]
      have A: "\<exists>pre f' post d'. sigs @ [s] = pre @ PollSettled f' # post \<and> payload f' = Some d'
                \<and> env_stringify e d' = poll_last (handle e ?p s)"
        unfolding h using v Some s by (intro exI[of _ sigs] exI[of _ f] exI[of _ "[]"] exI[of _ d]) simp
      have B: "reloads (handle e ?p s) \<noteq> reloads pg \<longrightarrow>
            (\<exists>pre f1 mid f2 post d1 d2.
               sigs @ [s] = pre @ PollSettled f1 # mid @ PollSettled f2 # post
               \<and> payload f1 = Some d1 \<and> payload f2 = Some d2
               \<and> env_stringify e d1 \<noteq> env_stringify e d2)"
      proof
        assume ne: "reloads (handle e ?p s) \<noteq> reloads pg"
        show "\<exists>pre f1 mid f2 post d1 d2.
               sigs @ [s] = pre @ PollSettled f1 # mid @ PollSettled f2 # post
               \<and> payload f1 = Some d1 \<and> payload f2 = Some d2
               \<and> env_stringify e d1 \<noteq> env_stringify e d2"
        proof (cases "reloads ?p \<noteq> reloads pg")
          case True
          with IH2 ext2[of "\<lambda>f1 f2 d1 d2. payload f1 = Some d1 \<and> payload f2 = Some d2
               \<and> env_stringify e d1 \<noteq> env_stringify e d2"] show ?thesis by blast
        next
          case False
          with ne have "reloads (poll_settled (env_stringify e) f ?p) \<noteq> reloads ?p"
            unfolding h by simp
          from poll_settled_reload[OF this] Some
          have ne1: "poll_last ?p \<noteq> []" and ne2: "env_stringify e d \<noteq> poll_last ?p" by auto
          with IH1 obtain pre f1 post d1 where
            "sigs = pre @ PollSettled f1 # post" "payload f1 = Some d1"
            "env_stringify e d1 = poll_last ?p" by blast
          then show ?thesis using Some ne2 s
            by (intro exI[of _ pre] exI[of _ f1] exI[of _ post] exI[of _ f] exI[of _ "[]"]
                exI[of _ d1] exI[of _ d]) auto
        qed
      qed
      show ?thesis unfolding run_snoc using A B by blast
    qed
  qed
qed


section \<open>The poller's baseline\<close>

text \<open>
  Claim C10. While no baseline is recorded (\<^verbatim>\<open>last\<close> is the empty string, as it is when the
  poller starts), a settled poll issues no reload. A successfully parsed object payload is
  recorded as the baseline; any other outcome (rejected request, non-2xx status, unparseable
  body, non-object body) leaves both the baseline and the reload count as they were. A settled
  poll issues a reload only if its payload is valid, a baseline is recorded and the payload
  serializes differently from it. Over a run of the poller that starts without a baseline, a
  reload therefore needs two valid payloads, an earlier and a later one, that serialize
  differently.
\<close>

theorem poller_baseline:
  "(poll_last pg = [] \<longrightarrow> reloads (poll_settled str f pg) = reloads pg)
   \<and> (\<forall>d. payload f = Some d \<longrightarrow> poll_last (poll_settled str f pg) = str d)
   \<and> (payload f = None \<longrightarrow>
        poll_last (poll_settled str f pg) = poll_last pg
        \<and> reloads (poll_settled str f pg) = reloads pg)
   \<and> (reloads (poll_settled str f pg) \<noteq> reloads pg \<longrightarrow>
        (\<exists>d. payload f = Some d \<and> poll_last pg \<noteq> [] \<and> str d \<noteq> poll_last pg))
   \<and> ((\<forall>s\<in>set sigs. poller_signal s) \<and> poll_last pg = []
        \<and> reloads (run e pg sigs) \<noteq> reloads pg \<longrightarrow>
        (\<exists>pre f1 mid f2 post d1 d2.
           sigs = pre @ PollSettled f1 # mid @ PollSettled f2 # post
           \<and> payload f1 = Some d1 \<and> payload f2 = Some d2
           \<and> env_stringify e d1 \<noteq> env_stringify e d2))"
proof -
  have 1: "poll_last pg = [] \<longrightarrow> reloads (poll_settled str f pg) = reloads pg"
    using poll_settled_reload[of str f pg] by blast
  have 2: "\<forall>d. payload f = Some d \<longrightarrow> poll_last (poll_settled str f pg) = str d"
    by (simp add: poll_settled_valid)
  have 3: "payload f = None \<longrightarrow>
        poll_last (poll_settled str f pg) = poll_last pg
        \<and> reloads (poll_settled str f pg) = reloads pg"
    by (simp add: poll_settled_invalid)
  have 4: "reloads (poll_settled str f pg) \<noteq> reloads pg \<longrightarrow>
        (\<exists>d. payload f = Some d \<and> poll_last pg \<noteq> [] \<and> str d \<noteq> poll_last pg)"
    using poll_settled_reload[of str f pg] by blast
  have 5: "(\<forall>s\<in>set sigs. poller_signal s) \<and> poll_last pg = []
        \<and> reloads (run e pg sigs) \<noteq> reloads pg \<longrightarrow>
        (\<exists>pre f1 mid f2 post d1 d2.
           sigs = pre @ PollSettled f1 # mid @ PollSettled f2 # post
           \<and> payload f1 = Some d1 \<and> payload f2 = Some d2
           \<and> env_stringify e d1 \<noteq> env_stringify e d2)"
    using poller_trace[of sigs pg e] by blast
  from 1 2 3 4 5 show ?thesis by blast
qed

theorem poller_baseline_witness:
  "reloads (poll_settled (\<lambda>d. if d = JObj [] then ''{}'' else ''x'')
      (Resolves (Response 200 (Some (JObj [])))) (initial_page\<lparr>watching := True, poll_inFlight := True\<rparr>)) = 0
   \<and> poll_last (poll_settled (\<lambda>d. if d = JObj [] then ''{}'' else ''x'')
      (Resolves (Response 200 (Some (JObj [])))) (initial_page\<lparr>watching := True, poll_inFlight := True\<rparr>)) = ''{}''
   \<and> poll_last (poll_settled (\<lambda>d. if d = JObj [] then ''{}'' else ''x'')
      (Resolves (Response 500 None)) (initial_page\<lparr>watching := True, poll_inFlight := True\<rparr>)) = []
   \<and> reloads (run \<lparr>env_on = [], env_allApps = [], env_cached = None,
                    env_stringify = (\<lambda>d. if d = JObj [] then ''{}'' else ''x'')\<rparr>
        (initial_page\<lparr>watching := True\<rparr>)
        [PollTick False, PollSettled (Resolves (Response 200 (Some (JObj [])))),
         PollTick False, PollSettled (Resolves (Response 200 (Some (JObj [(''disabled'', JArr [])]))))]) = 1
   \<and> (\<exists>pre f1 mid f2 post d1 d2.
        [PollTick False, PollSettled (Resolves (Response 200 (Some (JObj [])))),
         PollTick False, PollSettled (Resolves (Response 200 (Some (JObj [(''disabled'', JArr [])]))))]
          = pre @ PollSettled f1 # mid @ PollSettled f2 # post
        \<and> payload f1 = Some d1 \<and> payload f2 = Some d2
        \<and> (if d1 = JObj [] then ''{}'' else ''x'') \<noteq> (if d2 = JObj [] then ''{}'' else ''x''))"
proof -
  let ?str = "\<lambda>d. if d = JObj [] then ''{}'' else ''x''"
  let ?e = "\<lparr>env_on = [], env_allApps = [], env_cached = None, env_stringify = ?str\<rparr>"
  let ?pg = "initial_page\<lparr>watching := True, poll_inFlight := True\<rparr>"
  let ?f = "Resolves (Response 200 (Some (JObj [])))"
  let ?sigs = "[PollTick False, PollSettled ?f,
         PollTick False, PollSettled (Resolves (Response 200 (Some (JObj [(''disabled'', JArr [])]))))]"
  have p: "payload ?f = Some (JObj [])" "payload (Resolves (Response 500 None)) = None"
    by (simp_all add: ok_def)
  have l: "poll_last ?pg = []" "reloads ?pg = 0" "poll_last (initial_page\<lparr>watching := True\<rparr>) = []"
    "reloads (initial_page\<lparr>watching := True\<rparr>) = 0"
    by (simp_all add: initial_page_def)
  have r: "reloads (run ?e (initial_page\<lparr>watching := True\<rparr>) ?sigs) = 1"
    by (simp add: run_def initial_page_def poll_def poll_settled_def poll_data_def schedule_def
        ok_def read_body_def safeReload_def Let_def)
  have s: "\<forall>s\<in>set ?sigs. poller_signal s" by simp
  show ?thesis
    using poller_baseline[of ?pg ?str ?f]
      poller_baseline[of ?pg ?str "Resolves (Response 500 None)"]
      poller_baseline[of "initial_page\<lparr>watching := True\<rparr>" ?str ?f ?sigs ?e]
      p l r s
    by simp
qed



section \<open>Facts about the remote toggle state\<close>

lemma set_strings_of: "set (strings_of vs) = {s. JStr s \<in> set vs}"
  by (induction vs rule: strings_of.induct) auto

lemma sanitizeDisabledApps_Nil [simp]: "sanitizeDisabledApps on [] = []"
  by (simp add: sanitizeDisabledApps_def new_Set_def)

lemma plain_object_cases:
  "(truthy d \<and> typeof_object d \<and> \<not> isArray d) = (\<exists>kvs. d = JObj kvs)"
  by (cases d) auto

lemma getServerToggleState_resolves:
  "\<exists>ts. getServerToggleState lc on f = Resolves ts"
proof (cases f)
  case Rejects
  then show ?thesis by (simp add: getServerToggleState_def)
next
  case (Resolves res)
  then show ?thesis
    by (cases "body res") (simp_all add: getServerToggleState_def read_body_def)
qed

lemma getServerToggleState_object:
  "ok res \<Longrightarrow> body res = Some (JObj kvs) \<Longrightarrow>
   getServerToggleState lc on (Resolves res) =
     Resolves \<lparr>disabled = (case map_of kvs ''disabled'' of
                             Some (JArr vs) \<Rightarrow> sanitizeDisabledApps on (strings_of vs)
                           | _ \<Rightarrow> []),
               disabledMode = normalizeDisabledModeConfig lc (map_of kvs ''disabledMode'')\<rparr>"
  by (simp add: getServerToggleState_def read_body_def toggle_of_data_def Let_def)

lemma getServerToggleState_default:
  "f = Rejects \<or> (\<exists>res. f = Resolves res \<and>
       (\<not> ok res \<or> body res = None \<or> (\<exists>d. body res = Some d \<and> (\<forall>kvs. d \<noteq> JObj kvs))))
   \<Longrightarrow> getServerToggleState lc on f = Resolves \<lparr>disabled = [], disabledMode = None\<rparr>"
proof (elim disjE exE conjE)
  assume "f = Rejects" then show ?thesis by (simp add: getServerToggleState_def)
next
  fix res assume f: "f = Resolves res" and "\<not> ok res"
  then show ?thesis
    by (simp add: getServerToggleState_def toggle_of_data_def Let_def
        normalizeDisabledModeConfig_def sanitizeDisabledApps_def new_Set_def)
next
  fix res assume f: "f = Resolves res" and b: "body res = None"
  then show ?thesis
    by (simp add: getServerToggleState_def toggle_of_data_def Let_def read_body_def
        normalizeDisabledModeConfig_def)
next
  fix res d assume f: "f = Resolves res" and b: "body res = Some d" and n: "\<forall>kvs. d \<noteq> JObj kvs"
  from n have "\<not> (truthy d \<and> typeof_object d \<and> \<not> isArray d)"
    by (simp add: plain_object_cases)
  then have t: "toggle_of_data lc on d = \<lparr>disabled = [], disabledMode = None\<rparr>"
    by (auto simp: toggle_of_data_def)
  show ?thesis using f b t
    by (simp add: getServerToggleState_def Let_def read_body_def toggle_of_data_def
        normalizeDisabledModeConfig_def)
qed

section \<open>Facts about objects as entry lists\<close>

lemma keys_insert_index: "fst ` set (insert_index n e obj) = insert (fst e) (fst ` set obj)"
  by (induction obj) (auto split: option.splits)

lemma distinct_insert_index:
  "distinct (map fst obj) \<Longrightarrow> fst e \<notin> fst ` set obj \<Longrightarrow> distinct (map fst (insert_index n e obj))"
proof (induction obj)
  case Nil
  then show ?case by simp
next
  case (Cons x xs)
  then have "fst x \<notin> fst ` set (insert_index n e xs)"
    unfolding keys_insert_index by auto
  with Cons show ?case by (auto split: option.splits)
qed

lemma map_of_insert_index:
  "k \<notin> fst ` set obj \<Longrightarrow> map_of (insert_index n (k, v) obj) = (map_of obj)(k \<mapsto> v)"
  by (induction obj) (auto split: option.splits simp: fun_eq_iff)

lemma map_of_snoc_new:
  assumes "k \<notin> fst ` set obj"
  shows "map_of (obj @ [(k, v)]) = (map_of obj)(k \<mapsto> v)"
proof (rule ext)
  fix x
  have n: "map_of obj k = None" using assms by (simp add: map_of_eq_None_iff)
  show "map_of (obj @ [(k, v)]) x = ((map_of obj)(k \<mapsto> v)) x"
    using n by (cases "map_of obj x") (auto simp: map_add_def)
qed

lemma map_of_obj_put: "map_of (obj_put k v obj) = (map_of obj)(k \<mapsto> v)"
proof (cases "k \<in> fst ` set obj")
  case True
  then show ?thesis by (simp add: obj_put_def update_conv')
next
  case False
  then show ?thesis
    by (cases "array_index k")
       (simp_all add: obj_put_def map_of_insert_index map_of_snoc_new del: map_of_append)
qed

lemma distinct_obj_put: "distinct (map fst obj) \<Longrightarrow> distinct (map fst (obj_put k v obj))"
  by (auto simp: obj_put_def distinct_update distinct_insert_index split: option.splits)

lemma map_of_foldl_obj_put:
  "map_of (foldl (\<lambda>acc e. obj_put (fst e) (snd e) acc) acc xs) = map_of acc ++ map_of (rev xs)"
  by (induction xs arbitrary: acc) (auto simp: map_of_obj_put map_add_def fun_eq_iff split: option.splits)

lemma distinct_foldl_obj_put:
  "distinct (map fst acc) \<Longrightarrow>
   distinct (map fst (foldl (\<lambda>acc e. obj_put (fst e) (snd e) acc) acc xs))"
  by (induction xs arbitrary: acc) (auto simp: distinct_obj_put)

lemma mode_of_explicit:
  "mode_of x = (if x = Some (JStr ''hide'') then Some Hide
                else if x = Some (JStr ''placeholder'') then Some Placeholder else None)"
  by (cases x rule: mode_of.cases) auto

lemma distinct_foldl_assign_mode:
  "distinct (map fst acc) \<Longrightarrow> distinct (map fst (foldl assign_mode acc es))"
  by (induction es arbitrary: acc) (auto simp: assign_mode_def distinct_obj_put split: option.splits)

lemma map_of_assign_mode:
  "map_of (assign_mode acc (k', v)) k =
     (if k = k' \<and> k' \<noteq> ''__proto__'' \<and> mode_of (Some v) \<noteq> None then mode_of (Some v)
      else map_of acc k)"
  by (auto simp: assign_mode_def map_of_obj_put split: option.splits)

lemma map_of_foldl_assign_mode:
  "distinct (map fst es) \<Longrightarrow>
   map_of (foldl assign_mode acc es) k =
     (if k = ''__proto__'' then map_of acc k
      else case mode_of (map_of es k) of Some m \<Rightarrow> Some m | None \<Rightarrow> map_of acc k)"
proof (induction es arbitrary: acc)
  case Nil
  then show ?case by simp
next
  case (Cons e es)
  obtain k' v where e: "e = (k', v)" by (cases e)
  from Cons.prems e have d: "distinct (map fst es)" and nk: "k' \<notin> fst ` set es" by auto
  have none: "k = k' \<Longrightarrow> map_of es k = None"
    using nk by (simp add: map_of_eq_None_iff[THEN iffD2])
  show ?case
    unfolding foldl_Cons Cons.IH[OF d] e map_of_assign_mode
    using none by (auto split: option.splits)
qed

lemma map_of_rev_distinct:
  assumes "distinct (map fst xs)"
  shows "map_of (rev xs) = map_of xs"
proof (rule ext)
  fix k
  show "map_of (rev xs) k = map_of xs k"
  proof (cases "map_of xs k")
    case None
    then have "k \<notin> fst ` set xs" by (simp add: map_of_eq_None_iff)
    then have "map_of (rev xs) k = None" by (simp add: map_of_eq_None_iff)
    with None show ?thesis by simp
  next
    case (Some v)
    then have "(k, v) \<in> set (rev xs)" by (auto dest: map_of_SomeD)
    moreover have "distinct (map fst (rev xs))"
      using assms by (simp add: rev_map[symmetric])
    ultimately have "map_of (rev xs) k = Some v" by (rule map_of_is_SomeI[rotated])
    with Some show ?thesis by simp
  qed
qed

lemma set_insert_entry: "set (insert_entry lc e xs) = insert e (set xs)"
  by (induction xs) auto

lemma distinct_insert_entry:
  "distinct (map fst (insert_entry lc e xs)) = (fst e \<notin> fst ` set xs \<and> distinct (map fst xs))"
  by (induction xs) (auto simp: set_insert_entry)

lemma sort_entries_perm:
  "set (sort_entries lc es) = set es
   \<and> distinct (map fst (sort_entries lc es)) = distinct (map fst es)"
  unfolding sort_entries_def
  by (induction es) (auto simp: set_insert_entry distinct_insert_entry)

lemma map_of_sort_entries:
  "distinct (map fst es) \<Longrightarrow> map_of (sort_entries lc es) = map_of es"
  using sort_entries_perm[of lc es] by (simp add: map_of_inject_set)

lemma distinct_ui_apps: "distinct (map fst (mc_apps (normalizeDisabledModeConfig_ui c)))"
  by (auto simp: normalizeDisabledModeConfig_ui_def Let_def distinct_foldl_assign_mode
      split: option.splits)

lemma map_of_spread2:
  "distinct (map fst a) \<Longrightarrow> distinct (map fst b) \<Longrightarrow> map_of (spread2 a b) = map_of a ++ map_of b"
  by (simp add: spread2_def map_of_foldl_obj_put map_of_rev_distinct)

lemma distinct_spread2: "distinct (map fst (spread2 a b))"
  by (simp add: spread2_def distinct_foldl_obj_put)


section \<open>Malformed remote toggle state\<close>

lemma normalize_mode_string:
  "normalizeDisabledModeConfig lc (Some (JStr s)) =
     (if s = ''hide'' then Some \<lparr>dm_default = Hide, dm_apps = []\<rparr>
      else if s = ''placeholder'' then Some \<lparr>dm_default = Placeholder, dm_apps = []\<rparr>
      else None)"
  by (simp add: normalizeDisabledModeConfig_def)

lemma normalize_mode_object:
  "normalizeDisabledModeConfig lc (Some (JObj mo)) =
     Some \<lparr>dm_default = (if map_of mo ''default'' = Some (JStr ''placeholder'') then Placeholder
                          else Hide),
           dm_apps = (case map_of mo ''apps'' of
                        Some (JObj es) \<Rightarrow> foldl assign_mode [] (sort_entries lc es)
                      | _ \<Rightarrow> [])\<rparr>"
  by (auto simp: normalizeDisabledModeConfig_def Let_def mode_of_explicit[of "map_of mo ''default''"])

lemma normalize_mode_other:
  "(\<forall>s. v \<noteq> Some (JStr s)) \<Longrightarrow> (\<forall>mo. v \<noteq> Some (JObj mo)) \<Longrightarrow>
   normalizeDisabledModeConfig lc v = None"
proof (cases v)
  case None
  then show ?thesis by (simp add: normalizeDisabledModeConfig_def)
next
  case (Some j)
  assume "\<forall>s. v \<noteq> Some (JStr s)" "\<forall>mo. v \<noteq> Some (JObj mo)"
  with Some show ?thesis by (cases j) (simp_all add: normalizeDisabledModeConfig_def)
qed

lemma normalized_apps:
  assumes "distinct (map fst es)"
  shows "map_of (foldl assign_mode [] (sort_entries lc es)) k =
     (if k = ''__proto__'' then None
      else if map_of es k = Some (JStr ''hide'') then Some Hide
      else if map_of es k = Some (JStr ''placeholder'') then Some Placeholder
      else None)"
proof -
  have d: "distinct (map fst (sort_entries lc es))"
    using assms sort_entries_perm[of lc es] by simp
  show ?thesis
    unfolding map_of_foldl_assign_mode[OF d] map_of_sort_entries[OF assms]
      mode_of_explicit[of "map_of es k"]
    by simp
qed

text \<open>
  Claim C8, as amended. \<^verbatim>\<open>getServerToggleState\<close> never rejects. When the request is rejected,
  the status is not 2xx, the body cannot be parsed or the body is not a plain object, it
  resolves to exactly \<^verbatim>\<open>{disabled: []}\<close>. For a 2xx response with an object body: the disabled
  list is empty when the \<^verbatim>\<open>disabled\<close> field is not an array, and otherwise consists of the
  string entries of the array that are not always-on, the other entries being dropped. The
  rendering mode of the result is absent unless the \<^verbatim>\<open>disabledMode\<close> field is one of the two
  mode strings, which becomes the default with no per-app entry, or a plain object; for a
  plain object the default is \<^verbatim>\<open>placeholder\<close> if the object says so and \<^verbatim>\<open>hide\<close> otherwise, and
  the per-app map holds, for the names of a plain \<^verbatim>\<open>apps\<close> object other than \<^verbatim>\<open>__proto__\<close>,
  exactly the values that are one of the two mode strings (it is empty when \<^verbatim>\<open>apps\<close> is not
  a plain object).
\<close>

theorem getServerToggleState_total:
  "(\<exists>ts. getServerToggleState lc on f = Resolves ts)
   \<and> (f = Rejects \<or> (\<exists>res. f = Resolves res \<and>
         (\<not> ok res \<or> body res = None \<or> (\<exists>d. body res = Some d \<and> (\<forall>kvs. d \<noteq> JObj kvs))))
        \<longrightarrow> getServerToggleState lc on f = Resolves \<lparr>disabled = [], disabledMode = None\<rparr>)
   \<and> (\<forall>res kvs ts. f = Resolves res \<and> ok res \<and> body res = Some (JObj kvs)
          \<and> getServerToggleState lc on f = Resolves ts \<longrightarrow>
          (case map_of kvs ''disabled'' of
             Some (JArr vs) \<Rightarrow> set (disabled ts) = {s. JStr s \<in> set vs} - set on
           | _ \<Rightarrow> disabled ts = [])
          \<and> (case map_of kvs ''disabledMode'' of
                Some (JStr s) \<Rightarrow>
                  disabledMode ts =
                    (if s = ''hide'' then Some \<lparr>dm_default = Hide, dm_apps = []\<rparr>
                     else if s = ''placeholder'' then Some \<lparr>dm_default = Placeholder, dm_apps = []\<rparr>
                     else None)
              | Some (JObj mo) \<Rightarrow>
                  (\<exists>dm. disabledMode ts = Some dm
                     \<and> dm_default dm =
                         (if map_of mo ''default'' = Some (JStr ''placeholder'') then Placeholder
                          else Hide)
                     \<and> (case map_of mo ''apps'' of
                           Some (JObj es) \<Rightarrow>
                             distinct (map fst es) \<longrightarrow>
                               (\<forall>k. map_of (dm_apps dm) k =
                                  (if k = ''__proto__'' then None
                                   else if map_of es k = Some (JStr ''hide'') then Some Hide
                                   else if map_of es k = Some (JStr ''placeholder'')
                                        then Some Placeholder
                                   else None))
                         | _ \<Rightarrow> dm_apps dm = []))
              | _ \<Rightarrow> disabledMode ts = None))"
proof (intro conjI allI impI)
  show "\<exists>ts. getServerToggleState lc on f = Resolves ts" by (rule getServerToggleState_resolves)
next
  assume "f = Rejects \<or> (\<exists>res. f = Resolves res \<and>
         (\<not> ok res \<or> body res = None \<or> (\<exists>d. body res = Some d \<and> (\<forall>kvs. d \<noteq> JObj kvs))))"
  then show "getServerToggleState lc on f = Resolves \<lparr>disabled = [], disabledMode = None\<rparr>"
    by (rule getServerToggleState_default)
next
  fix res kvs ts
  assume a: "f = Resolves res \<and> ok res \<and> body res = Some (JObj kvs)
          \<and> getServerToggleState lc on f = Resolves ts"
  then have ts: "ts = \<lparr>disabled = (case map_of kvs ''disabled'' of
                             Some (JArr vs) \<Rightarrow> sanitizeDisabledApps on (strings_of vs)
                           | _ \<Rightarrow> []),
               disabledMode = normalizeDisabledModeConfig lc (map_of kvs ''disabledMode'')\<rparr>"
    using getServerToggleState_object[of res kvs lc on] by auto
  show "case map_of kvs ''disabled'' of
                Some (JArr vs) \<Rightarrow> set (disabled ts) = {s. JStr s \<in> set vs} - set on
              | _ \<Rightarrow> disabled ts = []"
    by (simp add: ts set_sanitizeDisabledApps set_strings_of split: option.splits json.splits)
  have m: "disabledMode ts = normalizeDisabledModeConfig lc (map_of kvs ''disabledMode'')"
    by (simp add: ts)
  show "case map_of kvs ''disabledMode'' of
                Some (JStr s) \<Rightarrow>
                  disabledMode ts =
                    (if s = ''hide'' then Some \<lparr>dm_default = Hide, dm_apps = []\<rparr>
                     else if s = ''placeholder'' then Some \<lparr>dm_default = Placeholder, dm_apps = []\<rparr>
                     else None)
              | Some (JObj mo) \<Rightarrow>
                  (\<exists>dm. disabledMode ts = Some dm
                     \<and> dm_default dm =
                         (if map_of mo ''default'' = Some (JStr ''placeholder'') then Placeholder
                          else Hide)
                     \<and> (case map_of mo ''apps'' of
                           Some (JObj es) \<Rightarrow>
                             distinct (map fst es) \<longrightarrow>
                               (\<forall>k. map_of (dm_apps dm) k =
                                  (if k = ''__proto__'' then None
                                   else if map_of es k = Some (JStr ''hide'') then Some Hide
                                   else if map_of es k = Some (JStr ''placeholder'')
                                        then Some Placeholder
                                   else None))
                         | _ \<Rightarrow> dm_apps dm = []))
              | _ \<Rightarrow> disabledMode ts = None"
  proof (cases "map_of kvs ''disabledMode''")
    case None
    then show ?thesis using m by (simp add: normalize_mode_other)
  next
    case (Some j)
    show ?thesis
    proof (cases j)
      case (JStr s)
      then show ?thesis using m Some by (simp add: normalize_mode_string)
    next
      case (JObj mo)
      let ?dm = "\<lparr>dm_default = (if map_of mo ''default'' = Some (JStr ''placeholder'')
                                then Placeholder else Hide),
                  dm_apps = (case map_of mo ''apps'' of
                               Some (JObj es) \<Rightarrow> foldl assign_mode [] (sort_entries lc es)
                             | _ \<Rightarrow> [])\<rparr>"
      have "\<exists>dm. disabledMode ts = Some dm
                     \<and> dm_default dm =
                         (if map_of mo ''default'' = Some (JStr ''placeholder'') then Placeholder
                          else Hide)
                     \<and> (case map_of mo ''apps'' of
                           Some (JObj es) \<Rightarrow>
                             distinct (map fst es) \<longrightarrow>
                               (\<forall>k. map_of (dm_apps dm) k =
                                  (if k = ''__proto__'' then None
                                   else if map_of es k = Some (JStr ''hide'') then Some Hide
                                   else if map_of es k = Some (JStr ''placeholder'')
                                        then Some Placeholder
                                   else None))
                         | _ \<Rightarrow> dm_apps dm = [])"
      proof (intro exI[of _ ?dm] conjI)
        show "disabledMode ts = Some ?dm"
          using m Some JObj by (simp add: normalize_mode_object)
        show "dm_default ?dm =
                (if map_of mo ''default'' = Some (JStr ''placeholder'') then Placeholder else Hide)"
          by simp
        show "case map_of mo ''apps'' of
                Some (JObj es) \<Rightarrow>
                  distinct (map fst es) \<longrightarrow>
                    (\<forall>k. map_of (dm_apps ?dm) k =
                       (if k = ''__proto__'' then None
                        else if map_of es k = Some (JStr ''hide'') then Some Hide
                        else if map_of es k = Some (JStr ''placeholder'') then Some Placeholder
                        else None))
              | _ \<Rightarrow> dm_apps ?dm = []"
          by (auto simp: normalized_apps split: option.splits json.splits)
      qed
      then show ?thesis by (simp add: Some JObj)
    qed (use m Some in \<open>simp_all add: normalize_mode_other\<close>)
  qed
qed

text \<open>
  Claim C8 as stated fails: a body whose \<^verbatim>\<open>disabled\<close> array mixes a string with a number is
  malformed, yet the result keeps the string entry and is not \<^verbatim>\<open>{disabled: []}\<close>.
\<close>

theorem getServerToggleState_keeps_strings:
  "getServerToggleState (\<lambda>a b. 0) ALWAYS_ON_APPS
     (Resolves (Response 200 (Some (JObj [(''disabled'', JArr [JStr ''@org/catalog'', JNum 1])]))))
   = Resolves \<lparr>disabled = [''@org/catalog''], disabledMode = None\<rparr>
   \<and> getServerToggleState (\<lambda>a b. 0) ALWAYS_ON_APPS
     (Resolves (Response 200 (Some (JObj [(''disabled'', JArr [JStr ''@org/catalog'', JNum 1])]))))
   \<noteq> Resolves \<lparr>disabled = [], disabledMode = None\<rparr>"
  by (simp add: getServerToggleState_def toggle_of_data_def ok_def read_body_def Let_def
      normalizeDisabledModeConfig_def sanitizeDisabledApps_def ALWAYS_ON_APPS_def new_Set_def
      set_add_def)

text \<open>Likewise, a body whose \<^verbatim>\<open>disabled\<close> field is not an array keeps its rendering mode,
  without the entries that are malformed.\<close>

lemma getServerToggleState_keeps_mode:
  "getServerToggleState (\<lambda>a b. 0) ALWAYS_ON_APPS
     (Resolves (Response 200 (Some (JObj
        [(''disabled'', JStr ''x''),
         (''disabledMode'', JObj [(''default'', JStr ''placeholder''),
            (''apps'', JObj [(''@org/catalog'', JStr ''hide''), (''__proto__'', JStr ''hide''),
                             (''@org/profile-vue'', JStr ''bogus''), (''7'', JStr ''placeholder'')])])]))))
   = Resolves \<lparr>disabled = [],
       disabledMode = Some \<lparr>dm_default = Placeholder,
                             dm_apps = [(''7'', Placeholder), (''@org/catalog'', Hide)]\<rparr>\<rparr>"
  by (simp add: getServerToggleState_def toggle_of_data_def ok_def read_body_def Let_def
      normalizeDisabledModeConfig_def sort_entries_def assign_mode_def obj_put_def
      array_index_def digit_value_def show_nat.simps)

theorem getServerToggleState_total_witness:
  "getServerToggleState (\<lambda>a b. 0) [''@org/header-react'']
     (Resolves (Response 500 (Some (JObj [(''disabled'', JArr [JStr ''@org/catalog''])]))))
     = Resolves \<lparr>disabled = [], disabledMode = None\<rparr>
   \<and> (\<exists>ts dm. getServerToggleState (\<lambda>a b. 0) [''@org/header-react'']
          (Resolves (Response 200 (Some (JObj
             [(''disabled'', JArr [JStr ''@org/catalog'', JNum 1, JStr ''@org/header-react'']),
              (''disabledMode'', JObj [(''default'', JStr ''placeholder''),
                 (''apps'', JObj [(''@org/catalog'', JStr ''hide''),
                                  (''__proto__'', JStr ''hide''),
                                  (''@org/profile-vue'', JStr ''bogus'')])])]))))
          = Resolves ts
        \<and> set (disabled ts) = {''@org/catalog''}
        \<and> disabledMode ts = Some dm \<and> dm_default dm = Placeholder
        \<and> map_of (dm_apps dm) ''@org/catalog'' = Some Hide
        \<and> map_of (dm_apps dm) ''__proto__'' = None
        \<and> map_of (dm_apps dm) ''@org/profile-vue'' = None)"
proof -
  let ?f1 = "Resolves (Response 500 (Some (JObj [(''disabled'', JArr [JStr ''@org/catalog''])])))"
  let ?es = "[(''@org/catalog'', JStr ''hide''), (''__proto__'', JStr ''hide''),
              (''@org/profile-vue'', JStr ''bogus'')]"
  let ?mo = "[(''default'', JStr ''placeholder''), (''apps'', JObj ?es)]"
  let ?kvs = "[(''disabled'', JArr [JStr ''@org/catalog'', JNum 1, JStr ''@org/header-react'']),
              (''disabledMode'', JObj ?mo)]"
  let ?res = "Response 200 (Some (JObj ?kvs))"
  have 1: "getServerToggleState (\<lambda>a b. 0) [''@org/header-react''] ?f1
             = Resolves \<lparr>disabled = [], disabledMode = None\<rparr>"
    using getServerToggleState_total[of "\<lambda>a b. 0" "[''@org/header-react'']" ?f1]
    by (simp add: ok_def)
  note t = getServerToggleState_total[of "\<lambda>a b. 0" "[''@org/header-react'']" "Resolves ?res"]
  from t obtain ts where ts: "getServerToggleState (\<lambda>a b. 0) [''@org/header-react''] (Resolves ?res)
      = Resolves ts" by blast
  have o: "ok ?res" "body ?res = Some (JObj ?kvs)" by (simp_all add: ok_def)
  from t ts o have
    "(case map_of ?kvs ''disabled'' of
             Some (JArr vs) \<Rightarrow> set (disabled ts) = {s. JStr s \<in> set vs} - set [''@org/header-react'']
           | _ \<Rightarrow> disabled ts = [])
     \<and> (case map_of ?kvs ''disabledMode'' of
                Some (JStr s) \<Rightarrow>
                  disabledMode ts =
                    (if s = ''hide'' then Some \<lparr>dm_default = Hide, dm_apps = []\<rparr>
                     else if s = ''placeholder'' then Some \<lparr>dm_default = Placeholder, dm_apps = []\<rparr>
                     else None)
              | Some (JObj mo) \<Rightarrow>
                  (\<exists>dm. disabledMode ts = Some dm
                     \<and> dm_default dm =
                         (if map_of mo ''default'' = Some (JStr ''placeholder'') then Placeholder
                          else Hide)
                     \<and> (case map_of mo ''apps'' of
                           Some (JObj es) \<Rightarrow>
                             distinct (map fst es) \<longrightarrow>
                               (\<forall>k. map_of (dm_apps dm) k =
                                  (if k = ''__proto__'' then None
                                   else if map_of es k = Some (JStr ''hide'') then Some Hide
                                   else if map_of es k = Some (JStr ''placeholder'')
                                        then Some Placeholder
                                   else None))
                         | _ \<Rightarrow> dm_apps dm = []))
              | _ \<Rightarrow> disabledMode ts = None)"
    by blast
  then obtain dm where d: "set (disabled ts) = {''@org/catalog''}" "disabledMode ts = Some dm"
      "dm_default dm = Placeholder"
      "\<forall>k. map_of (dm_apps dm) k =
                                  (if k = ''__proto__'' then None
                                   else if map_of ?es k = Some (JStr ''hide'') then Some Hide
                                   else if map_of ?es k = Some (JStr ''placeholder'')
                                        then Some Placeholder
                                   else None)"
    by auto
  have "map_of (dm_apps dm) ''@org/catalog'' = Some Hide"
    "map_of (dm_apps dm) ''__proto__'' = None"
    "map_of (dm_apps dm) ''@org/profile-vue'' = None"
    unfolding d(4)[rule_format] by simp_all
  with 1 ts d(1,2,3) show ?thesis by blast
qed


section \<open>Precedence of the device-local rendering mode\<close>

lemma ui_plain_object:
  "normalizeDisabledModeConfig_ui (Some (JObj ob)) =
     \<lparr>mc_default = mode_of (map_of ob ''default''),
      mc_apps = (case map_of ob ''apps'' of
                   Some a \<Rightarrow> if truthy a \<and> typeof_object a then foldl assign_mode [] (entries a)
                             else []
                 | None \<Rightarrow> [])\<rparr>"
  by (simp add: normalizeDisabledModeConfig_ui_def Let_def)

lemma no_proto_foldl_assign_mode:
  "map_of acc ''__proto__'' = None \<Longrightarrow> map_of (foldl assign_mode acc es) ''__proto__'' = None"
proof (induction es arbitrary: acc)
  case Nil
  then show ?case by simp
next
  case (Cons e es)
  have "map_of (assign_mode acc e) ''__proto__'' = None"
    using Cons.prems by (cases e) (auto simp: map_of_assign_mode)
  then show ?case using Cons.IH by simp
qed

lemma no_proto_ui_apps:
  "map_of (mc_apps (normalizeDisabledModeConfig_ui c)) ''__proto__'' = None"
  by (auto simp: normalizeDisabledModeConfig_ui_def Let_def no_proto_foldl_assign_mode
      split: option.splits)

text \<open>
  Claim C9. With \<open>base\<close> the normalized remote (window-published) configuration and
  \<open>override\<close> the normalized device-local one, the per-app map that
  \<^verbatim>\<open>readDisabledModeConfig\<close> returns gives for every name the local entry when there is one and
  the remote entry otherwise, and its default is the local default when present and the remote
  default otherwise; neither map has an entry for \<^verbatim>\<open>__proto__\<close>. When both configurations
  are plain objects whose \<^verbatim>\<open>apps\<close> are plain objects, this reads on the raw entries, for every
  name other than \<^verbatim>\<open>__proto__\<close>: a local value that is a mode string wins, else a remote value
  that is a mode string, else the name has no entry; and likewise for the default.
\<close>

theorem local_mode_overrides_remote:
  "map_of (mc_apps (readDisabledModeConfig w item)) k =
     (case map_of (mc_apps (normalizeDisabledModeConfig_ui (storageConfig item))) k of
        Some m \<Rightarrow> Some m
      | None \<Rightarrow> map_of (mc_apps (normalizeDisabledModeConfig_ui w)) k)
   \<and> mc_default (readDisabledModeConfig w item) =
     (case mc_default (normalizeDisabledModeConfig_ui (storageConfig item)) of
        Some d \<Rightarrow> Some d
      | None \<Rightarrow> mc_default (normalizeDisabledModeConfig_ui w))
   \<and> map_of (mc_apps (readDisabledModeConfig w item)) ''__proto__'' = None
   \<and> (w = Some (JObj wo) \<and> item = Item (JObj so)
        \<and> map_of wo ''apps'' = Some (JObj wa) \<and> map_of so ''apps'' = Some (JObj sa)
        \<and> distinct (map fst wa) \<and> distinct (map fst sa) \<longrightarrow>
        map_of (mc_apps (readDisabledModeConfig w item)) k =
          (if k = ''__proto__'' then None
           else if map_of sa k = Some (JStr ''hide'') then Some Hide
           else if map_of sa k = Some (JStr ''placeholder'') then Some Placeholder
           else if map_of wa k = Some (JStr ''hide'') then Some Hide
           else if map_of wa k = Some (JStr ''placeholder'') then Some Placeholder
           else None)
        \<and> mc_default (readDisabledModeConfig w item) =
          (if map_of so ''default'' = Some (JStr ''hide'') then Some Hide
           else if map_of so ''default'' = Some (JStr ''placeholder'') then Some Placeholder
           else if map_of wo ''default'' = Some (JStr ''hide'') then Some Hide
           else if map_of wo ''default'' = Some (JStr ''placeholder'') then Some Placeholder
           else None))"
proof (intro conjI impI)
  show 1: "\<And>k. map_of (mc_apps (readDisabledModeConfig w item)) k =
     (case map_of (mc_apps (normalizeDisabledModeConfig_ui (storageConfig item))) k of
        Some m \<Rightarrow> Some m
      | None \<Rightarrow> map_of (mc_apps (normalizeDisabledModeConfig_ui w)) k)"
    by (simp add: readDisabledModeConfig_def Let_def map_of_spread2 distinct_ui_apps map_add_def)
  show 2: "mc_default (readDisabledModeConfig w item) =
     (case mc_default (normalizeDisabledModeConfig_ui (storageConfig item)) of
        Some d \<Rightarrow> Some d
      | None \<Rightarrow> mc_default (normalizeDisabledModeConfig_ui w))"
    by (simp add: readDisabledModeConfig_def Let_def)
  show "map_of (mc_apps (readDisabledModeConfig w item)) ''__proto__'' = None"
    unfolding 1 by (simp add: no_proto_ui_apps)
  assume a: "w = Some (JObj wo) \<and> item = Item (JObj so)
        \<and> map_of wo ''apps'' = Some (JObj wa) \<and> map_of so ''apps'' = Some (JObj sa)
        \<and> distinct (map fst wa) \<and> distinct (map fst sa)"
  have nw: "normalizeDisabledModeConfig_ui w =
      \<lparr>mc_default = mode_of (map_of wo ''default''), mc_apps = foldl assign_mode [] wa\<rparr>"
    using a by (simp add: ui_plain_object)
  have ns: "normalizeDisabledModeConfig_ui (storageConfig item) =
      \<lparr>mc_default = mode_of (map_of so ''default''), mc_apps = foldl assign_mode [] sa\<rparr>"
    using a by (simp add: ui_plain_object)
  have dw: "distinct (map fst wa)" and ds: "distinct (map fst sa)" using a by simp_all
  show "map_of (mc_apps (readDisabledModeConfig w item)) k =
          (if k = ''__proto__'' then None
           else if map_of sa k = Some (JStr ''hide'') then Some Hide
           else if map_of sa k = Some (JStr ''placeholder'') then Some Placeholder
           else if map_of wa k = Some (JStr ''hide'') then Some Hide
           else if map_of wa k = Some (JStr ''placeholder'') then Some Placeholder
           else None)"
    unfolding 1 nw ns
    by (simp add: map_of_foldl_assign_mode[OF dw] map_of_foldl_assign_mode[OF ds]
        mode_of_explicit[of "map_of sa k"] mode_of_explicit[of "map_of wa k"])
  show "mc_default (readDisabledModeConfig w item) =
          (if map_of so ''default'' = Some (JStr ''hide'') then Some Hide
           else if map_of so ''default'' = Some (JStr ''placeholder'') then Some Placeholder
           else if map_of wo ''default'' = Some (JStr ''hide'') then Some Hide
           else if map_of wo ''default'' = Some (JStr ''placeholder'') then Some Placeholder
           else None)"
    unfolding 2 nw ns
    by (simp add: mode_of_explicit[of "map_of so ''default''"]
        mode_of_explicit[of "map_of wo ''default''"])
qed

theorem local_mode_overrides_remote_witness:
  "readDisabledModeConfig
     (Some (JObj [(''default'', JStr ''hide''),
                  (''apps'', JObj [(''@org/catalog'', JStr ''hide''),
                                   (''@org/profile-vue'', JStr ''placeholder'')])]))
     (Item (JObj [(''apps'', JObj [(''@org/catalog'', JStr ''placeholder''),
                                   (''__proto__'', JStr ''placeholder''),
                                   (''@org/footer-react'', JStr ''bogus''),
                                   (''7'', JStr ''hide'')])]))
   = \<lparr>mc_default = Some Hide,
      mc_apps = [(''7'', Hide), (''@org/catalog'', Placeholder),
                 (''@org/profile-vue'', Placeholder)]\<rparr>
   \<and> map_of (mc_apps (readDisabledModeConfig
     (Some (JObj [(''default'', JStr ''hide''),
                  (''apps'', JObj [(''@org/catalog'', JStr ''hide''),
                                   (''@org/profile-vue'', JStr ''placeholder'')])]))
     (Item (JObj [(''apps'', JObj [(''@org/catalog'', JStr ''placeholder''),
                                   (''__proto__'', JStr ''placeholder''),
                                   (''@org/footer-react'', JStr ''bogus''),
                                   (''7'', JStr ''hide'')])]))))
       ''@org/catalog'' = Some Placeholder"
proof -
  let ?wa = "[(''@org/catalog'', JStr ''hide''), (''@org/profile-vue'', JStr ''placeholder'')]"
  let ?sa = "[(''@org/catalog'', JStr ''placeholder''), (''__proto__'', JStr ''placeholder''),
              (''@org/footer-react'', JStr ''bogus''), (''7'', JStr ''hide'')]"
  let ?wo = "[(''default'', JStr ''hide''), (''apps'', JObj ?wa)]"
  let ?so = "[(''apps'', JObj ?sa)]"
  have r: "readDisabledModeConfig (Some (JObj ?wo)) (Item (JObj ?so))
     = \<lparr>mc_default = Some Hide,
        mc_apps = [(''7'', Hide), (''@org/catalog'', Placeholder),
                   (''@org/profile-vue'', Placeholder)]\<rparr>"
    by (simp add: readDisabledModeConfig_def normalizeDisabledModeConfig_ui_def Let_def
        assign_mode_def spread2_def obj_put_def array_index_def digit_value_def show_nat.simps)
  have h: "Some (JObj ?wo) = Some (JObj ?wo) \<and> Item (JObj ?so) = Item (JObj ?so)
        \<and> map_of ?wo ''apps'' = Some (JObj ?wa) \<and> map_of ?so ''apps'' = Some (JObj ?sa)
        \<and> distinct (map fst ?wa) \<and> distinct (map fst ?sa)"
    by simp
  from local_mode_overrides_remote[of "Some (JObj ?wo)" "Item (JObj ?so)" "''@org/catalog''"
      ?wo ?so ?wa ?sa] h
  have "map_of (mc_apps (readDisabledModeConfig (Some (JObj ?wo)) (Item (JObj ?so)))) ''@org/catalog'' =
          (if ''@org/catalog'' = ''__proto__'' then None
           else if map_of ?sa ''@org/catalog'' = Some (JStr ''hide'') then Some Hide
           else if map_of ?sa ''@org/catalog'' = Some (JStr ''placeholder'') then Some Placeholder
           else if map_of ?wa ''@org/catalog'' = Some (JStr ''hide'') then Some Hide
           else if map_of ?wa ''@org/catalog'' = Some (JStr ''placeholder'') then Some Placeholder
           else None)"
    by blast
  then have "map_of (mc_apps (readDisabledModeConfig (Some (JObj ?wo)) (Item (JObj ?so))))
      ''@org/catalog'' = Some Placeholder"
    by simp
  with r show ?thesis by blast
qed


section \<open>Facts about the script loader\<close>

lemma length_filter_update_status:
  "length (filter (\<lambda>el. src el = k) (xs[p := (xs ! p)\<lparr>sstatus := s\<rparr>]))
     = length (filter (\<lambda>el. src el = k) xs)"
proof (induction xs arbitrary: p)
  case Nil
  then show ?case by simp
next
  case (Cons x xs)
  then show ?case by (cases p) auto
qed

lemma insertions_onload [simp]: "insertions k (script_onload p st) = insertions k st"
  by (simp add: insertions_def script_onload_def length_filter_update_status)

lemma insertions_onerror [simp]: "insertions k (script_onerror p st) = insertions k st"
  by (simp add: insertions_def script_onerror_def length_filter_update_status)

lemma umdLoads_onload [simp]: "umdLoads (script_onload p st) = umdLoads st"
  by (simp add: script_onload_def)

lemma load_cached:
  "umdLoads st (cacheKey lh now url) = Some p \<Longrightarrow> loadUmdScript lh csp st now url = (p, st)"
  by (simp add: loadUmdScript_def Let_def)

lemma load_fresh:
  "umdLoads st (cacheKey lh now url) = None \<Longrightarrow>
   fst (loadUmdScript lh csp st now url) = length (scripts st)
   \<and> umdLoads (snd (loadUmdScript lh csp st now url))
       = (umdLoads st)(cacheKey lh now url \<mapsto> length (scripts st))
   \<and> insertions k (snd (loadUmdScript lh csp st now url))
       = insertions k st + (if k = cacheKey lh now url then 1 else 0)"
  by (auto simp: loadUmdScript_def Let_def insertions_def)

lemma shared_silent_step:
  assumes "fst (umd_step lh csp st ev) = []"
    and "umdLoads (snd (umd_step lh csp st ev)) k = umdLoads st k"
    and "insertions k (snd (umd_step lh csp st ev)) = insertions k st"
    and "shared lh csp k (snd (umd_step lh csp st ev)) evs"
  shows "shared lh csp k st (ev # evs)"
proof -
  have eq: "umd_run lh csp st (ev # evs) = umd_run lh csp (snd (umd_step lh csp st ev)) evs"
    using assms(1) by (simp add: Let_def)
  show ?thesis
    using assms(4) unfolding shared_def eq assms(2) assms(3) .
qed

lemma shared_other_call:
  assumes "fst (umd_step lh csp st ev) = [(k', p)]" and "k' \<noteq> k"
    and "umdLoads (snd (umd_step lh csp st ev)) k = umdLoads st k"
    and "insertions k (snd (umd_step lh csp st ev)) = insertions k st"
    and "shared lh csp k (snd (umd_step lh csp st ev)) evs"
  shows "shared lh csp k st (ev # evs)"
proof -
  let ?rs = "umd_run lh csp (snd (umd_step lh csp st ev)) evs"
  have eq: "fst (umd_run lh csp st (ev # evs)) = (k', p) # fst ?rs"
    "snd (umd_run lh csp st (ev # evs)) = snd ?rs"
    using assms(1) by (simp_all add: Let_def)
  show ?thesis
    using assms(5,2) unfolding shared_def eq assms(3) assms(4)
    by (auto split: option.splits)
qed

lemma shared_cached_call:
  assumes "fst (umd_step lh csp st ev) = [(k, p)]" and "snd (umd_step lh csp st ev) = st"
    and "umdLoads st k = Some p"
    and "shared lh csp k (snd (umd_step lh csp st ev)) evs"
  shows "shared lh csp k st (ev # evs)"
proof -
  let ?rs = "umd_run lh csp st evs"
  have eq: "fst (umd_run lh csp st (ev # evs)) = (k, p) # fst ?rs"
    "snd (umd_run lh csp st (ev # evs)) = snd ?rs"
    using assms(1,2) by (simp_all add: Let_def)
  show ?thesis
    using assms(4) unfolding shared_def eq assms(2) assms(3) by simp
qed

lemma shared_first_call:
  assumes "fst (umd_step lh csp st ev) = [(k, p)]"
    and "umdLoads st k = None"
    and "umdLoads (snd (umd_step lh csp st ev)) k = Some p"
    and "insertions k (snd (umd_step lh csp st ev)) = insertions k st + 1"
    and "shared lh csp k (snd (umd_step lh csp st ev)) evs"
  shows "shared lh csp k st (ev # evs)"
proof -
  let ?rs = "umd_run lh csp (snd (umd_step lh csp st ev)) evs"
  have eq: "fst (umd_run lh csp st (ev # evs)) = (k, p) # fst ?rs"
    "snd (umd_run lh csp st (ev # evs)) = snd ?rs"
    using assms(1) by (simp_all add: Let_def)
  from assms(5) have a: "\<forall>r\<in>set (fst ?rs). fst r = k \<longrightarrow> snd r = p"
    and b: "insertions k (snd ?rs) = insertions k (snd (umd_step lh csp st ev))"
    unfolding shared_def assms(3) by simp_all
  show ?thesis
    unfolding shared_def eq assms(2) using a b assms(4) by auto
qed

lemma umd_run_shared:
  "undisturbed lh csp k st evs \<Longrightarrow> shared lh csp k st evs"
proof (induction evs arbitrary: st)
  case Nil
  then show ?case by (simp add: shared_def split: option.splits)
next
  case (Cons ev evs)
  let ?st1 = "snd (umd_step lh csp st ev)"
  from Cons.prems have u: "undisturbed lh csp k ?st1 evs" by simp
  note IH = Cons.IH[OF u]
  show ?case
  proof (cases ev)
    case (LoadCall now url)
    show ?thesis
    proof (cases "umdLoads st (cacheKey lh now url)")
      case (Some p)
      then have s1: "umd_step lh csp st ev = ([(cacheKey lh now url, p)], st)"
        using LoadCall by (simp add: load_cached)
      show ?thesis
      proof (cases "k = cacheKey lh now url")
        case True
        show ?thesis
          by (rule shared_cached_call[where p = p]) (use True Some s1 IH in simp_all)
      next
        case False
        show ?thesis
          by (rule shared_other_call[where p = p and k' = "cacheKey lh now url"])
             (use False s1 IH in simp_all)
      qed
    next
      case None
      note f = load_fresh[OF None, of csp k]
      have s1: "fst (umd_step lh csp st ev) = [(cacheKey lh now url, length (scripts st))]"
        using LoadCall f by (simp add: Let_def)
      have m1: "umdLoads ?st1 = (umdLoads st)(cacheKey lh now url \<mapsto> length (scripts st))"
        and i1: "insertions k ?st1 = insertions k st + (if k = cacheKey lh now url then 1 else 0)"
        using LoadCall f by (simp_all add: Let_def)
      show ?thesis
      proof (cases "k = cacheKey lh now url")
        case True
        show ?thesis
          by (rule shared_first_call[where p = "length (scripts st)"])
             (use True None s1 m1 i1 IH in simp_all)
      next
        case False
        show ?thesis
          by (rule shared_other_call[where p = "length (scripts st)" and k' = "cacheKey lh now url"])
             (use False s1 m1 i1 IH in simp_all)
      qed
    qed
  next
    case (ScriptLoad p)
    show ?thesis
      by (rule shared_silent_step) (use ScriptLoad IH in simp_all)
  next
    case (ScriptError p)
    from Cons.prems ScriptError
    have "umdLoads (script_onerror p st) k = umdLoads st k"
      by (auto simp: script_onerror_def)
    then show ?thesis
      by (intro shared_silent_step) (use ScriptError IH in simp_all)
  qed
qed


lemma undisturbed_calls:
  "undisturbed lh csp k st (map (\<lambda>c. LoadCall (fst c) (snd c)) calls)"
  by (induction calls arbitrary: st) simp_all

lemma run_calls_keys:
  "map fst (fst (umd_run lh csp st (map (\<lambda>c. LoadCall (fst c) (snd c)) calls)))
     = map (\<lambda>c. cacheKey lh (fst c) (snd c)) calls"
  by (induction calls arbitrary: st) (simp_all add: Let_def)

section \<open>One script load per cache key\<close>

text \<open>
  Claim C3. A call of \<^verbatim>\<open>loadUmdScript\<close> whose cache key has an entry returns that entry and
  changes nothing. Over any interleaving of calls and script events in which no script loaded
  for key \<open>k\<close> fails (the loads for \<open>k\<close> stay pending or resolved), all calls for \<open>k\<close> return
  the same promise, and the number of script elements appended for \<open>k\<close> grows by exactly one
  if \<open>k\<close> had no entry at the start and some call is for \<open>k\<close>, and not at all otherwise. In
  particular \<open>N \<ge> 1\<close> successive calls with the same, not yet cached key return one promise
  to all callers and append exactly one script element.
\<close>

theorem one_load_per_key:
  "(umdLoads st (cacheKey lh now url) = Some p \<longrightarrow> loadUmdScript lh csp st now url = (p, st))
   \<and> (undisturbed lh csp k st evs \<longrightarrow>
        (case umdLoads st k of
           Some p0 \<Rightarrow>
             (\<forall>r\<in>set (fst (umd_run lh csp st evs)). fst r = k \<longrightarrow> snd r = p0)
             \<and> insertions k (snd (umd_run lh csp st evs)) = insertions k st
         | None \<Rightarrow>
             (\<exists>P. \<forall>r\<in>set (fst (umd_run lh csp st evs)). fst r = k \<longrightarrow> snd r = P)
             \<and> insertions k (snd (umd_run lh csp st evs))
                 = insertions k st
                   + (if k \<in> fst ` set (fst (umd_run lh csp st evs)) then 1 else 0)))
   \<and> (calls \<noteq> [] \<and> (\<forall>c\<in>set calls. cacheKey lh (fst c) (snd c) = k) \<and> umdLoads st k = None \<longrightarrow>
        (\<exists>P. fst (umd_run lh csp st (map (\<lambda>c. LoadCall (fst c) (snd c)) calls))
                = map (\<lambda>c. (k, P)) calls)
        \<and> insertions k (snd (umd_run lh csp st (map (\<lambda>c. LoadCall (fst c) (snd c)) calls)))
            = insertions k st + 1)"
proof (intro conjI impI)
  assume "umdLoads st (cacheKey lh now url) = Some p"
  then show "loadUmdScript lh csp st now url = (p, st)" by (rule load_cached)
next
  assume "undisturbed lh csp k st evs"
  then show "case umdLoads st k of
           Some p0 \<Rightarrow>
             (\<forall>r\<in>set (fst (umd_run lh csp st evs)). fst r = k \<longrightarrow> snd r = p0)
             \<and> insertions k (snd (umd_run lh csp st evs)) = insertions k st
         | None \<Rightarrow>
             (\<exists>P. \<forall>r\<in>set (fst (umd_run lh csp st evs)). fst r = k \<longrightarrow> snd r = P)
             \<and> insertions k (snd (umd_run lh csp st evs))
                 = insertions k st
                   + (if k \<in> fst ` set (fst (umd_run lh csp st evs)) then 1 else 0)"
    using umd_run_shared[of lh csp k st evs] by (simp add: shared_def)
next
  let ?evs = "map (\<lambda>c. LoadCall (fst c) (snd c)) calls"
  let ?rets = "fst (umd_run lh csp st ?evs)"
  assume a: "calls \<noteq> [] \<and> (\<forall>c\<in>set calls. cacheKey lh (fst c) (snd c) = k) \<and> umdLoads st k = None"
  have keys: "map fst ?rets = map (\<lambda>c. k) calls"
    using a run_calls_keys[of lh csp st calls] by (simp cong: map_cong)
  have "fst ` set ?rets = (\<lambda>c. k) ` set calls"
    using arg_cong[OF keys, of set] by simp
  then have kin: "k \<in> fst ` set ?rets"
    using a by (cases calls) simp_all
  have sh: "shared lh csp k st ?evs" by (rule umd_run_shared[OF undisturbed_calls])
  then obtain P where P: "\<forall>r\<in>set ?rets. fst r = k \<longrightarrow> snd r = P"
    and ins: "insertions k (snd (umd_run lh csp st ?evs)) = insertions k st + 1"
    using a kin by (auto simp: shared_def)
  have allk: "\<forall>r\<in>set ?rets. fst r = k"
  proof
    fix r assume "r \<in> set ?rets"
    then have "fst r \<in> set (map fst ?rets)" by simp
    then show "fst r = k" unfolding keys by auto
  qed
  have "?rets = map (\<lambda>c. (k, P)) calls"
  proof (rule nth_equalityI)
    show len: "length ?rets = length (map (\<lambda>c. (k, P)) calls)"
      using arg_cong[OF keys, of length] by simp
    fix i assume i: "i < length ?rets"
    then have "?rets ! i \<in> set ?rets" by simp
    with P allk have "?rets ! i = (k, P)" by (metis prod.collapse)
    then show "?rets ! i = map (\<lambda>c. (k, P)) calls ! i" using i len by simp
  qed
  then show "\<exists>P. ?rets = map (\<lambda>c. (k, P)) calls" by blast
  show "insertions k (snd (umd_run lh csp st ?evs)) = insertions k st + 1" by (rule ins)
qed




theorem one_load_per_key_witness:
  "undisturbed False None ''/profile-vue.js'' \<lparr>umdLoads = Map.empty, scripts = []\<rparr>
     [LoadCall 10 ''/profile-vue.js'', LoadCall 11 ''/profile-vue.js'', ScriptLoad 0,
      LoadCall 12 ''/profile-vue.js'']
   \<and> umd_run False None \<lparr>umdLoads = Map.empty, scripts = []\<rparr>
        [LoadCall 10 ''/profile-vue.js'', LoadCall 11 ''/profile-vue.js'', ScriptLoad 0,
         LoadCall 12 ''/profile-vue.js'']
     = ([(''/profile-vue.js'', 0), (''/profile-vue.js'', 0), (''/profile-vue.js'', 0)],
        \<lparr>umdLoads = [''/profile-vue.js'' \<mapsto> 0],
         scripts = [\<lparr>src = ''/profile-vue.js'', crossOrigin = Some ''anonymous'', nonce = None,
                     async = True, sstatus = Loaded\<rparr>]\<rparr>)
   \<and> insertions ''/profile-vue.js''
       (snd (umd_run False None \<lparr>umdLoads = Map.empty, scripts = []\<rparr>
        [LoadCall 10 ''/profile-vue.js'', LoadCall 11 ''/profile-vue.js'', ScriptLoad 0,
         LoadCall 12 ''/profile-vue.js'']))
     = insertions ''/profile-vue.js'' \<lparr>umdLoads = Map.empty, scripts = []\<rparr> + 1
   \<and> (\<exists>P. fst (umd_run False None \<lparr>umdLoads = Map.empty, scripts = []\<rparr>
              (map (\<lambda>c. LoadCall (fst c) (snd c)) [(10, ''/profile-vue.js''), (11, ''/profile-vue.js'')]))
          = map (\<lambda>c. (''/profile-vue.js'', P)) [(10::nat, ''/profile-vue.js''), (11, ''/profile-vue.js'')])"
proof -
  let ?u = "''/profile-vue.js''"
  let ?st = "\<lparr>umdLoads = Map.empty, scripts = []\<rparr>"
  let ?evs = "[LoadCall 10 ?u, LoadCall 11 ?u, ScriptLoad 0, LoadCall 12 ?u]"
  have u: "undisturbed False None ?u ?st ?evs"
    by (simp add: loadUmdScript_def cacheKey_def Let_def script_onload_def)
  have r: "umd_run False None ?st ?evs = ([(?u, 0), (?u, 0), (?u, 0)],
        \<lparr>umdLoads = [?u \<mapsto> 0],
         scripts = [\<lparr>src = ?u, crossOrigin = Some ''anonymous'', nonce = None,
                     async = True, sstatus = Loaded\<rparr>]\<rparr>)"
    by (simp add: loadUmdScript_def cacheKey_def Let_def script_onload_def)
  have n: "umdLoads ?st ?u = None" by simp
  have "case umdLoads ?st ?u of
           Some p0 \<Rightarrow>
             (\<forall>r\<in>set (fst (umd_run False None ?st ?evs)). fst r = ?u \<longrightarrow> snd r = p0)
             \<and> insertions ?u (snd (umd_run False None ?st ?evs)) = insertions ?u ?st
         | None \<Rightarrow>
             (\<exists>P. \<forall>r\<in>set (fst (umd_run False None ?st ?evs)). fst r = ?u \<longrightarrow> snd r = P)
             \<and> insertions ?u (snd (umd_run False None ?st ?evs))
                 = insertions ?u ?st
                   + (if ?u \<in> fst ` set (fst (umd_run False None ?st ?evs)) then 1 else 0)"
    using one_load_per_key[of ?st False 0 ?u 0 None ?u ?evs "[]"] u by blast
  then have "insertions ?u (snd (umd_run False None ?st ?evs))
                 = insertions ?u ?st
                   + (if ?u \<in> fst ` set (fst (umd_run False None ?st ?evs)) then 1 else 0)"
    unfolding n option.case by (rule conjunct2)
  then have i: "insertions ?u (snd (umd_run False None ?st ?evs)) = insertions ?u ?st + 1"
    unfolding r by simp
  have c: "[(10::nat, ?u), (11, ?u)] \<noteq> [] \<and> (\<forall>c\<in>set [(10::nat, ?u), (11, ?u)].
      cacheKey False (fst c) (snd c) = ?u) \<and> umdLoads ?st ?u = None"
    by (simp add: cacheKey_def)
  have m: "\<exists>P. fst (umd_run False None ?st
              (map (\<lambda>c. LoadCall (fst c) (snd c)) [(10, ?u), (11, ?u)]))
          = map (\<lambda>c. (?u, P)) [(10::nat, ?u), (11, ?u)]"
    using one_load_per_key[of ?st False 0 ?u 0 None ?u "[]" "[(10, ?u), (11, ?u)]"] c by blast
  from u r i m show ?thesis by (intro conjI)
qed




section \<open>Facts about regular expressions\<close>

lemma nullable_iff: "nullable r \<longleftrightarrow> [] \<in> lang r"
  by (induction r) (auto intro: star.intros)

lemma lang_alt [simp]: "lang (alt r s) = lang r \<union> lang s"
  by (induction r s rule: alt.induct) auto

lemma lang_seq [simp]: "lang (seq r s) = lang (Seq r s)"
  by (induction r s rule: seq.induct) auto

lemma star_ConsD:
  "x \<in> star A \<Longrightarrow> x = c # w \<Longrightarrow> \<exists>u v. w = u @ v \<and> c # u \<in> A \<and> v \<in> star A"
proof (induction x rule: star.induct)
  case star_empty
  then show ?case by simp
next
  case (star_step u v)
  show ?case
  proof (cases u)
    case Nil
    with star_step show ?thesis by simp
  next
    case (Cons d u')
    with star_step.hyps(1,2) star_step.prems show ?thesis by auto
  qed
qed

lemma star_Cons_iff:
  "c # w \<in> star A \<longleftrightarrow> (\<exists>u v. w = u @ v \<and> c # u \<in> A \<and> v \<in> star A)"
proof
  assume "c # w \<in> star A"
  then show "\<exists>u v. w = u @ v \<and> c # u \<in> A \<and> v \<in> star A"
    by (rule star_ConsD) simp
next
  assume "\<exists>u v. w = u @ v \<and> c # u \<in> A \<and> v \<in> star A"
  then obtain u v where "w = u @ v" "c # u \<in> A" "v \<in> star A" by blast
  then show "c # w \<in> star A" using star_step[of "c # u" A v] by simp
qed

lemma lang_deriv: "lang (deriv c r) = {w. c # w \<in> lang r}"
proof (induction r)
  case (Seq r s)
  show ?case
  proof (rule set_eqI)
    fix w
    have "c # w \<in> lang (Seq r s) \<longleftrightarrow>
          (\<exists>u v. c # w = u @ v \<and> u \<in> lang r \<and> v \<in> lang s)" by auto
    also have "\<dots> \<longleftrightarrow> ([] \<in> lang r \<and> c # w \<in> lang s)
          \<or> (\<exists>u' v. w = u' @ v \<and> c # u' \<in> lang r \<and> v \<in> lang s)"
      by (auto simp: Cons_eq_append_conv)
    finally show "w \<in> lang (deriv c (Seq r s)) \<longleftrightarrow> w \<in> {w. c # w \<in> lang (Seq r s)}"
      using Seq by (auto simp: nullable_iff)
  qed
next
  case (Star r)
  then show ?case by (auto simp: star_Cons_iff)
qed auto

lemma test_start_iff: "test_start r s \<longleftrightarrow> (\<exists>p q. s = p @ q \<and> p \<in> lang r)"
proof (induction s arbitrary: r)
  case Nil
  then show ?case by (simp add: nullable_iff)
next
  case (Cons c cs)
  have "(\<exists>p q. c # cs = p @ q \<and> p \<in> lang r)
        \<longleftrightarrow> [] \<in> lang r \<or> (\<exists>p' q. cs = p' @ q \<and> c # p' \<in> lang r)"
    by (auto simp: Cons_eq_append_conv)
  then show ?case using Cons[of "deriv c r"] by (simp add: nullable_iff lang_deriv)
qed

lemma test_any_iff: "test_any r s \<longleftrightarrow> (\<exists>a p q. s = a @ p @ q \<and> p \<in> lang r)"
proof (induction s)
  case Nil
  then show ?case by (simp add: nullable_iff)
next
  case (Cons c cs)
  have "(\<exists>a p q. c # cs = a @ p @ q \<and> p \<in> lang r)
        \<longleftrightarrow> (\<exists>p q. c # cs = p @ q \<and> p \<in> lang r) \<or> (\<exists>a p q. cs = a @ p @ q \<and> p \<in> lang r)"
    (is "?L \<longleftrightarrow> ?A \<or> ?B")
  proof
    assume ?L
    then obtain a p q where e: "c # cs = a @ p @ q" and p: "p \<in> lang r" by blast
    show "?A \<or> ?B"
    proof (cases a)
      case Nil
      with e p show ?thesis by auto
    next
      case (Cons d a')
      with e p have "cs = a' @ p @ q" by simp
      with p show ?thesis by blast
    qed
  next
    assume "?A \<or> ?B"
    then show ?L
    proof
      assume ?A
      then obtain p q where "c # cs = [] @ p @ q" "p \<in> lang r" by auto
      then show ?L by blast
    next
      assume ?B
      then obtain a p q where "c # cs = (c # a) @ p @ q" "p \<in> lang r" by auto
      then show ?L by blast
    qed
  qed
  then show ?case using Cons by (simp only: test_any.simps test_start_iff)
qed

lemma lang_lit [simp]: "lang (lit s) = {s}"
  by (induction s) auto

lemma test_any_lit: "test_any (lit n) s \<longleftrightarrow> (\<exists>a b. s = a @ n @ b)"
  by (simp add: test_any_iff)

lemma str_includes_iff: "str_includes s n \<longleftrightarrow> (\<exists>a b. s = a @ n @ b)"
proof (induction s)
  case Nil
  then show ?case by auto
next
  case (Cons c cs)
  have "(\<exists>a b. c # cs = a @ n @ b) \<longleftrightarrow> prefix n (c # cs) \<or> (\<exists>a b. cs = a @ n @ b)"
    (is "?L \<longleftrightarrow> ?A \<or> ?B")
  proof
    assume ?L
    then obtain a b where e: "c # cs = a @ n @ b" by blast
    show "?A \<or> ?B"
    proof (cases a)
      case Nil
      with e show ?thesis by (auto simp: prefix_def)
    next
      case (Cons d a')
      with e have "cs = a' @ n @ b" by simp
      then show ?thesis by blast
    qed
  next
    assume "?A \<or> ?B"
    then show ?L
    proof
      assume ?A
      then obtain b where "c # cs = [] @ n @ b" by (auto simp: prefix_def)
      then show ?L by blast
    next
      assume ?B
      then obtain a b where "c # cs = (c # a) @ n @ b" by auto
      then show ?L by blast
    qed
  qed
  then show ?case using Cons by simp
qed




section \<open>Facts about the detector\<close>

lemma star_chars: "(\<And>c. c \<in> set w \<Longrightarrow> [c] \<in> A) \<Longrightarrow> w \<in> star A"
proof (induction w)
  case Nil
  show ?case by (rule star_empty)
next
  case (Cons c w)
  have "[c] @ w \<in> star A" by (rule star_step) (use Cons in auto)
  then show ?case by simp
qed

lemma spaces_lang: "w \<in> spaces \<Longrightarrow> w \<in> lang ws"
  by (auto simp: spaces_def ws_def intro!: star_chars)

lemma line_comment_lang:
  "CHR 0x0A \<notin> set b \<Longrightarrow> ''//'' @ b @ [CHR 0x0A] \<in> lang line_comment"
proof -
  assume "CHR 0x0A \<notin> set b"
  then have "b \<in> star (lang (NotIn [CHR 0x0A]))" by (intro star_chars) auto
  then have "b @ [CHR 0x0A] \<in> lang (Seq (Star (NotIn [CHR 0x0A])) (Chr (CHR 0x0A)))" by auto
  then have "''//'' @ (b @ [CHR 0x0A]) \<in> lang line_comment"
    unfolding line_comment_def lang.simps(6)[of "lit ''//''"] lang_lit by blast
  then show ?thesis by simp
qed

lemma block_comment_lang: "''/*'' @ b @ ''*/'' \<in> lang block_comment"
proof -
  have "b \<in> star (lang (NotIn []))" by (intro star_chars) auto
  then have "b @ ''*/'' \<in> lang (Seq (Star (NotIn [])) (lit ''*/''))"
    unfolding lang.simps(6) lang_lit lang.simps(8) by blast
  then have "''/*'' @ (b @ ''*/'') \<in> lang block_comment"
    unfolding block_comment_def lang.simps(6)[of "lit ''/*''"] lang_lit by blast
  then show ?thesis by simp
qed

lemma comments_lang:
  "cs \<in> comments \<Longrightarrow> cs \<in> lang (Star (Seq (Alt line_comment block_comment) ws))"
proof (induction rule: comments.induct)
  case no_comment
  show ?case by (simp add: star_empty)
next
  case (line_comment b w cs)
  have "(''//'' @ b @ [CHR 0x0A]) @ w \<in> lang (Seq (Alt line_comment block_comment) ws)"
    using line_comment_lang[OF line_comment.hyps(1)] spaces_lang[OF line_comment.hyps(2)]
    unfolding lang.simps(6,7) by blast
  then have "((''//'' @ b @ [CHR 0x0A]) @ w) @ cs \<in> star (lang (Seq (Alt line_comment block_comment) ws))"
    using line_comment.IH by (intro star_step) simp_all
  then show ?case by simp
next
  case (block_comment w cs b)
  have "(''/*'' @ b @ ''*/'') @ w \<in> lang (Seq (Alt line_comment block_comment) ws)"
    using block_comment_lang[of b] spaces_lang[OF block_comment.hyps(1)]
    unfolding lang.simps(6,7) by blast
  then have "((''/*'' @ b @ ''*/'') @ w) @ cs \<in> star (lang (Seq (Alt line_comment block_comment) ws))"
    using block_comment.IH by (intro star_step) simp_all
  then show ?case by simp
qed

lemma directive_lang: "d \<in> directive \<Longrightarrow> d \<in> lang (Opt (Seq (lit use_strict) ws))"
  by (auto simp: directive_def Opt_def dest: spaces_lang)

lemma preamble_lang:
  assumes "w0 \<in> spaces" "cs \<in> comments" "d \<in> directive"
  shows "w0 @ cs @ d \<in> lang preamble_re"
proof -
  have "cs @ d \<in> lang (Seq (Star (Seq (Alt line_comment block_comment) ws))
                 (Opt (Seq (lit use_strict) ws)))"
    using comments_lang[OF assms(2)] directive_lang[OF assms(3)]
    unfolding lang.simps(6) by blast
  then show ?thesis
    using spaces_lang[OF assms(1)] unfolding preamble_re_def lang.simps(6)[of ws] by blast
qed

lemma hasSystemRegister_preamble:
  assumes "w0 \<in> spaces" "cs \<in> comments" "d \<in> directive"
  shows "hasSystemRegister (w0 @ cs @ d @ ''System.register('' @ rest)"
proof -
  have "(w0 @ cs @ d) @ ''System.register('' \<in> lang system_register_re"
    using preamble_lang[OF assms]
    unfolding system_register_re_def lang.simps(6) lang_lit by blast
  then have "\<exists>p q. w0 @ cs @ d @ ''System.register('' @ rest = p @ q \<and> p \<in> lang system_register_re"
    by (intro exI[of _ "(w0 @ cs @ d) @ ''System.register(''"] exI[of _ rest]) simp
  then show ?thesis by (simp only: hasSystemRegister_def test_start_iff)
qed

lemma ok_206: "status res = 206 \<Longrightarrow> ok res"
  by (simp add: ok_def)

lemma detect_cached:
  "moduleFormatCache st url = Some f \<Longrightarrow> detectModuleFormat lh net st now url = (f, st)"
  by (simp add: detectModuleFormat_def)

lemma detect_206_conclusive:
  assumes "moduleFormatCache st url = None"
    and "net (length (requests st)) = Resolves res"
    and "status res = 206" and "body res = Some head"
    and "analyzeSource head [] None \<noteq> Unknown"
  shows "detectModuleFormat lh net st now url =
     (analyzeSource head [] None,
      st\<lparr>requests := requests st @ [range_request lh now url],
         moduleFormatCache := (moduleFormatCache st)(url \<mapsto> analyzeSource head [] None)\<rparr>)"
  using assms by (simp add: detectModuleFormat_def Let_def ok_206 range_request_def)

lemma detect_206_fallback:
  assumes "moduleFormatCache st url = None"
    and "net (length (requests st)) = Resolves res"
    and "status res = 206" and "body res = Some head"
    and "analyzeSource head [] None = Unknown"
    and "net (Suc (length (requests st))) = Resolves r" and "ok r" and "body r = Some full"
  shows "detectModuleFormat lh net st now url =
     (analyzeSource (take 8192 full) (slice_last 4096 full) (Some full),
      st\<lparr>requests := requests st @ [range_request lh now url, full_request lh now url],
         moduleFormatCache := (moduleFormatCache st)
            (url \<mapsto> analyzeSource (take 8192 full) (slice_last 4096 full) (Some full))\<rparr>)"
  using assms
  by (simp add: detectModuleFormat_def Let_def ok_206 range_request_def full_request_def)




lemmas re_defs = hasSystemRegister_def system_register_re_def preamble_re_def ws_def
  line_comment_def block_comment_def use_strict_def Opt_def js_space_def hasUmdWrapper_def
  hasEsmSyntax_def import_export_re_def test_lines_def line_terminators_def

section \<open>Detection of the legacy registration format\<close>

text \<open>
  Claim C6. For a URL that is not memoized yet: if the range request is answered with
  status 206 and the returned text consists of white space, comments and an optional
  \<^verbatim>\<open>"use strict";\<close> directive followed by \<^verbatim>\<open>System.register(\<close>, the detection resolves to the
  legacy-registration format, memoizes it, and has issued the range request and nothing else.
\<close>

theorem system_register_detected:
  assumes "moduleFormatCache st url = None"
    and "net (length (requests st)) = Resolves res"
    and "status res = 206" and "body res = Some head"
    and "head = w0 @ cs @ d @ ''System.register('' @ rest"
    and "w0 \<in> spaces" and "cs \<in> comments" and "d \<in> directive"
  shows "detectModuleFormat lh net st now url =
     (System,
      st\<lparr>requests := requests st @ [range_request lh now url],
         moduleFormatCache := (moduleFormatCache st)(url \<mapsto> System)\<rparr>)"
proof -
  have "hasSystemRegister head"
    unfolding assms(5) by (rule hasSystemRegister_preamble[OF assms(6,7,8)])
  then have a: "analyzeSource head [] None = System" by (simp add: analyzeSource_def)
  show ?thesis
    using detect_206_conclusive[of st url net res head lh now] assms(1,2,3,4) a by simp
qed

theorem system_register_detected_witness:
  "detectModuleFormat True
     (\<lambda>n. Resolves (Response 206 (Some
        (''  /* build 12 */'' @ [CHR 0x0A] @ ''// generated'' @ [CHR 0x0A] @ use_strict
          @ '' System.register([], function () {})''))))
     \<lparr>moduleFormatCache = Map.empty, requests = []\<rparr> 7 ''http://localhost:9001/org-catalog.js''
   = (System,
      \<lparr>moduleFormatCache = [''http://localhost:9001/org-catalog.js'' \<mapsto> System],
       requests = [\<lparr>req_url = ''http://localhost:9001/org-catalog.js?t=7'', req_range = True,
                    req_timeout = 1200\<rparr>]\<rparr>)"
proof -
  let ?head = "''  /* build 12 */'' @ [CHR 0x0A] @ ''// generated'' @ [CHR 0x0A] @ use_strict
          @ '' System.register([], function () {})''"
  let ?st = "\<lparr>moduleFormatCache = Map.empty, requests = []\<rparr>"
  let ?net = "\<lambda>n::nat. Resolves (Response 206 (Some ?head))"
  have sp: "''  '' \<in> spaces" "[CHR 0x0A] \<in> spaces" "[] \<in> spaces" "'' '' \<in> spaces"
    by (simp_all add: spaces_def js_space_def)
  have "''//'' @ '' generated'' @ [CHR 0x0A] @ [] @ [] \<in> comments"
    by (rule comments.line_comment) (simp_all add: sp comments.no_comment)
  then have "''/*'' @ '' build 12 '' @ ''*/'' @ [CHR 0x0A] @ (''//'' @ '' generated'' @ [CHR 0x0A] @ [] @ [])
       \<in> comments"
    by (rule comments.block_comment[OF sp(2)])
  then have cs: "''/* build 12 */'' @ [CHR 0x0A] @ ''// generated'' @ [CHR 0x0A] \<in> comments"
    by simp
  have d: "use_strict @ '' '' \<in> directive" using sp(4) by (auto simp: directive_def)
  have h: "?head = ''  '' @ (''/* build 12 */'' @ [CHR 0x0A] @ ''// generated'' @ [CHR 0x0A])
      @ (use_strict @ '' '') @ ''System.register('' @ ''[], function () {})''"
    by simp
  have c: "moduleFormatCache ?st ''http://localhost:9001/org-catalog.js'' = None" by simp
  have n: "?net (length (requests ?st)) = Resolves (Response 206 (Some ?head))" by simp
  have s7: "show_nat 7 = ''7''" by (simp add: show_nat.simps)
  show ?thesis
    using system_register_detected[of ?st "''http://localhost:9001/org-catalog.js''" ?net
        "Response 206 (Some ?head)" ?head "''  ''"
        "''/* build 12 */'' @ [CHR 0x0A] @ ''// generated'' @ [CHR 0x0A]" "use_strict @ '' ''"
        "''[], function () {})''" True 7] c sp(1) cs d
    by (simp add: range_request_def withCacheBust_def s7)
qed

section \<open>Detection of a native module through the full body\<close>

text \<open>
  Claim C7, as amended. For a URL that is not memoized yet: if the range request is answered
  with status 206 and the returned text shows none of the recognized markers (no
  legacy-registration preamble, no module-definition token triple and no module syntax), and
  the second request is answered with a 2xx status and a body that begins with that text (or
  whose first 8192 characters at least show neither the preamble nor the token triple) and
  whose last 4096 characters contain \<^verbatim>\<open>export{\<close>, then the detection resolves to the native
  format, memoizes it, and has issued exactly two requests: the range request and one request
  for the full body.
\<close>

theorem esm_detected_after_full_fetch:
  assumes "moduleFormatCache st url = None"
    and "net (length (requests st)) = Resolves res"
    and "status res = 206" and "body res = Some head"
    and "\<not> hasSystemRegister head" and "\<not> hasUmdWrapper head" and "\<not> hasEsmSyntax head []"
    and "net (Suc (length (requests st))) = Resolves r" and "ok r" and "body r = Some full"
    and "head = take 8192 full
         \<or> (\<not> hasSystemRegister (take 8192 full) \<and> \<not> hasUmdWrapper (take 8192 full))"
    and "str_includes (slice_last 4096 full) ''export{''"
  shows "detectModuleFormat lh net st now url =
     (Esm,
      st\<lparr>requests := requests st @ [range_request lh now url, full_request lh now url],
         moduleFormatCache := (moduleFormatCache st)(url \<mapsto> Esm)\<rparr>)"
proof -
  have a: "analyzeSource head [] None = Unknown"
    using assms(5,6,7) by (simp add: analyzeSource_def)
  have "\<not> hasSystemRegister (take 8192 full) \<and> \<not> hasUmdWrapper (take 8192 full)"
    using assms(5,6,11) by auto
  then have b: "analyzeSource (take 8192 full) (slice_last 4096 full) (Some full) = Esm"
    using assms(12) by (simp add: analyzeSource_def hasEsmSyntax_def)
  show ?thesis
    using detect_206_fallback[of st url net res head r full lh now] assms(1,2,3,4,8,9,10) a b
    by simp
qed

theorem esm_detected_after_full_fetch_witness:
  "detectModuleFormat False
     (\<lambda>n. Resolves (Response (if n = 0 then 206 else 200) (Some ''var a=1;export{a};'')))
     \<lparr>moduleFormatCache = Map.empty, requests = []\<rparr> 7 ''/app.js''
   = (Esm,
      \<lparr>moduleFormatCache = [''/app.js'' \<mapsto> Esm],
       requests = [\<lparr>req_url = ''/app.js'', req_range = True, req_timeout = 3000\<rparr>,
                   \<lparr>req_url = ''/app.js'', req_range = False, req_timeout = 5000\<rparr>]\<rparr>)"
proof -
  let ?b = "''var a=1;export{a};''"
  let ?st = "\<lparr>moduleFormatCache = Map.empty, requests = []\<rparr>"
  let ?net = "\<lambda>n::nat. Resolves (Response (if n = 0 then 206 else 200) (Some ?b))"
  have c: "moduleFormatCache ?st ''/app.js'' = None" by simp
  have n1: "?net (length (requests ?st)) = Resolves (Response 206 (Some ?b))" by simp
  have n2: "?net (Suc (length (requests ?st))) = Resolves (Response 200 (Some ?b))" by simp
  have t: "take 8192 ?b = ?b" by simp
  have sl: "slice_last 4096 ?b = ?b" by (simp add: slice_last_def)
  have h1: "\<not> hasSystemRegister ?b" by (simp add: re_defs)
  have h2: "\<not> hasUmdWrapper ?b" by (simp add: re_defs)
  have h3: "\<not> hasEsmSyntax ?b []" by (simp add: re_defs)
  have h4: "str_includes ?b ''export{''" by simp
  have okr: "ok (Response 200 (Some ?b))" by (simp add: ok_def)
  show ?thesis
    using esm_detected_after_full_fetch[of ?st "''/app.js''" ?net "Response 206 (Some ?b)" ?b
        "Response 200 (Some ?b)" ?b False 7] c h1 h2 h3 h4 okr
    unfolding t sl
    by (simp add: range_request_def full_request_def withCacheBust_def)
qed

text \<open>
  Claim C7 as stated fails: the text \<^verbatim>\<open>var a=1;\<close>, line feed, \<^verbatim>\<open>export{a};\<close> has neither the
  preamble nor the token triple and its last 4096 characters contain \<^verbatim>\<open>export{\<close>, yet the
  detection resolves to the native format from the 206 answer alone: one request, no
  full-body fetch.
\<close>

theorem esm_detected_without_full_fetch:
  "\<not> hasSystemRegister (''var a=1;'' @ [CHR 0x0A] @ ''export{a};'')
   \<and> \<not> hasUmdWrapper (''var a=1;'' @ [CHR 0x0A] @ ''export{a};'')
   \<and> str_includes (slice_last 4096 (''var a=1;'' @ [CHR 0x0A] @ ''export{a};'')) ''export{''
   \<and> detectModuleFormat False
        (\<lambda>n. Resolves (Response (if n = 0 then 206 else 200)
                 (Some (''var a=1;'' @ [CHR 0x0A] @ ''export{a};''))))
        \<lparr>moduleFormatCache = Map.empty, requests = []\<rparr> 7 ''/app.js''
      = (Esm,
         \<lparr>moduleFormatCache = [''/app.js'' \<mapsto> Esm],
          requests = [\<lparr>req_url = ''/app.js'', req_range = True, req_timeout = 3000\<rparr>]\<rparr>)"
proof -
  let ?b = "''var a=1;'' @ [CHR 0x0A] @ ''export{a};''"
  have h1: "\<not> hasSystemRegister ?b" by (simp add: re_defs)
  have h2: "\<not> hasUmdWrapper ?b" by (simp add: re_defs)
  have h4: "str_includes (slice_last 4096 ?b) ''export{''" by (simp add: slice_last_def)
  have a: "analyzeSource ?b [] None = Esm" by (simp add: analyzeSource_def re_defs)
  have d: "detectModuleFormat False
        (\<lambda>n. Resolves (Response (if n = 0 then 206 else 200) (Some ?b)))
        \<lparr>moduleFormatCache = Map.empty, requests = []\<rparr> 7 ''/app.js''
      = (Esm,
         \<lparr>moduleFormatCache = [''/app.js'' \<mapsto> Esm],
          requests = [\<lparr>req_url = ''/app.js'', req_range = True, req_timeout = 3000\<rparr>]\<rparr>)"
    by (simp add: detectModuleFormat_def Let_def ok_def a[simplified] withCacheBust_def)
  from h1 h2 h4 d show ?thesis by (intro conjI)
qed




section \<open>Facts about memoization\<close>

lemma detect_issues_request:
  "moduleFormatCache st url = None \<Longrightarrow>
   length (requests st) < length (requests (snd (detectModuleFormat lh net st now url)))"
  by (simp add: detectModuleFormat_def Let_def split: settled.splits option.splits)

lemma detect_completed:
  "moduleFormatCache st url = None \<Longrightarrow> probe_completes net st \<Longrightarrow>
   moduleFormatCache (snd (detectModuleFormat lh net st now url)) url
     = Some (fst (detectModuleFormat lh net st now url))"
  by (auto simp: detectModuleFormat_def probe_completes_def Let_def ok_206
      split: settled.splits option.splits if_splits)

lemma detect_not_completed:
  "moduleFormatCache st url = None \<Longrightarrow> \<not> probe_completes net st \<Longrightarrow>
   fst (detectModuleFormat lh net st now url) = Unknown
   \<and> moduleFormatCache (snd (detectModuleFormat lh net st now url)) = moduleFormatCache st"
  by (auto simp: detectModuleFormat_def probe_completes_def Let_def ok_206
      split: settled.splits option.splits if_splits)

section \<open>Memoization of detected formats\<close>

text \<open>
  Claim C2, as amended. A call for a memoized URL returns the memoized value and leaves the
  state, hence the list of requests, as it is. A call for a URL that is not memoized stores
  its result exactly when the probe completes (the range request is answered with 206 or 2xx,
  the bodies can be read and a follow-up request is not rejected); then a second call, under
  any network behaviour, returns the identical value without a request, also when that value
  is \<^verbatim>\<open>unknown\<close>. When the probe does not complete (rejected or timed-out request, other
  status, unreadable body), the first call resolves to \<^verbatim>\<open>unknown\<close>, nothing is memoized, and a
  second call issues a request again.
\<close>

theorem detect_memoized:
  "(moduleFormatCache st url = Some f \<longrightarrow> detectModuleFormat lh net st now url = (f, st))
   \<and> (moduleFormatCache st url = None \<and> probe_completes net st \<longrightarrow>
        detectModuleFormat lh net' (snd (detectModuleFormat lh net st now url)) now' url
          = detectModuleFormat lh net st now url)
   \<and> (moduleFormatCache st url = None \<and> \<not> probe_completes net st \<longrightarrow>
        fst (detectModuleFormat lh net st now url) = Unknown
        \<and> moduleFormatCache (snd (detectModuleFormat lh net st now url)) url = None
        \<and> length (requests (snd (detectModuleFormat lh net st now url)))
            < length (requests (snd (detectModuleFormat lh net'
                  (snd (detectModuleFormat lh net st now url)) now' url))))"
proof (intro conjI impI)
  assume "moduleFormatCache st url = Some f"
  then show "detectModuleFormat lh net st now url = (f, st)" by (rule detect_cached)
next
  assume a: "moduleFormatCache st url = None \<and> probe_completes net st"
  let ?r = "detectModuleFormat lh net st now url"
  have "moduleFormatCache (snd ?r) url = Some (fst ?r)"
    using a by (simp add: detect_completed)
  then have "detectModuleFormat lh net' (snd ?r) now' url = (fst ?r, snd ?r)"
    by (rule detect_cached)
  then show "detectModuleFormat lh net' (snd ?r) now' url = ?r" by simp
next
  assume a: "moduleFormatCache st url = None \<and> \<not> probe_completes net st"
  let ?r = "detectModuleFormat lh net st now url"
  from a have n: "fst ?r = Unknown" "moduleFormatCache (snd ?r) = moduleFormatCache st"
    using detect_not_completed[of st url net lh now] by simp_all
  show "fst ?r = Unknown" by (rule n(1))
  show c: "moduleFormatCache (snd ?r) url = None" using n(2) a by simp
  show "length (requests (snd ?r))
            < length (requests (snd (detectModuleFormat lh net' (snd ?r) now' url)))"
    using c by (rule detect_issues_request)
qed

lemma analyze_unknown_sample: "analyzeSource ''var a=1;'' (slice_last 4096 ''var a=1;'') (Some ''var a=1;'') = Unknown"
  by (simp add: analyzeSource_def re_defs slice_last_def)

lemma analyze_esm_sample:
  "analyzeSource ''export default 1;'' (slice_last 4096 ''export default 1;'') (Some ''export default 1;'') = Esm"
  by (simp add: analyzeSource_def re_defs slice_last_def)

theorem detect_memoized_witness:
  "detectModuleFormat False (\<lambda>n. Resolves (Response 200 (Some ''var a=1;'')))
     \<lparr>moduleFormatCache = Map.empty, requests = []\<rparr> 7 ''/app.js''
     = (Unknown, \<lparr>moduleFormatCache = [''/app.js'' \<mapsto> Unknown],
                  requests = [\<lparr>req_url = ''/app.js'', req_range = True, req_timeout = 3000\<rparr>]\<rparr>)
   \<and> detectModuleFormat False (\<lambda>n. Resolves (Response 200 (Some ''export default 1;'')))
       (snd (detectModuleFormat False (\<lambda>n. Resolves (Response 200 (Some ''var a=1;'')))
          \<lparr>moduleFormatCache = Map.empty, requests = []\<rparr> 7 ''/app.js'')) 8 ''/app.js''
     = (Unknown, \<lparr>moduleFormatCache = [''/app.js'' \<mapsto> Unknown],
                  requests = [\<lparr>req_url = ''/app.js'', req_range = True, req_timeout = 3000\<rparr>]\<rparr>)"
proof -
  let ?net = "\<lambda>n::nat. Resolves (Response 200 (Some ''var a=1;''))"
  let ?net' = "\<lambda>n::nat. Resolves (Response 200 (Some ''export default 1;''))"
  let ?st = "\<lparr>moduleFormatCache = Map.empty, requests = []\<rparr>"
  have c: "moduleFormatCache ?st ''/app.js'' = None" by simp
  have p: "probe_completes ?net ?st" by (simp add: probe_completes_def ok_def)
  have d: "detectModuleFormat False ?net ?st 7 ''/app.js''
     = (Unknown, \<lparr>moduleFormatCache = [''/app.js'' \<mapsto> Unknown],
                  requests = [\<lparr>req_url = ''/app.js'', req_range = True, req_timeout = 3000\<rparr>]\<rparr>)"
    by (simp add: detectModuleFormat_def Let_def ok_def withCacheBust_def
        analyze_unknown_sample[simplified])
  from detect_memoized[of ?st "''/app.js''" Unknown False ?net 7 ?net' 8] c p
  have "detectModuleFormat False ?net' (snd (detectModuleFormat False ?net ?st 7 ''/app.js'')) 8 ''/app.js''
          = detectModuleFormat False ?net ?st 7 ''/app.js''"
    by blast
  with d show ?thesis by simp
qed

text \<open>
  Claim C2 as stated fails: when the first request is rejected (a network failure), the
  first call resolves to \<^verbatim>\<open>unknown\<close> and memoizes nothing; the second call issues a new
  request and, the network being back, resolves to a different value.
\<close>

theorem detect_retries_after_failure:
  "detectModuleFormat False
     (\<lambda>n. if n = 0 then Rejects else Resolves (Response 200 (Some ''export default 1;'')))
     \<lparr>moduleFormatCache = Map.empty, requests = []\<rparr> 7 ''/app.js''
     = (Unknown, \<lparr>moduleFormatCache = Map.empty,
                  requests = [\<lparr>req_url = ''/app.js'', req_range = True, req_timeout = 3000\<rparr>]\<rparr>)
   \<and> detectModuleFormat False
       (\<lambda>n. if n = 0 then Rejects else Resolves (Response 200 (Some ''export default 1;'')))
       \<lparr>moduleFormatCache = Map.empty,
        requests = [\<lparr>req_url = ''/app.js'', req_range = True, req_timeout = 3000\<rparr>]\<rparr> 8 ''/app.js''
     = (Esm, \<lparr>moduleFormatCache = [''/app.js'' \<mapsto> Esm],
              requests = [\<lparr>req_url = ''/app.js'', req_range = True, req_timeout = 3000\<rparr>,
                          \<lparr>req_url = ''/app.js'', req_range = True, req_timeout = 3000\<rparr>]\<rparr>)"
  by (simp add: detectModuleFormat_def Let_def ok_def withCacheBust_def
      analyze_esm_sample[simplified])




section \<open>Facts about the application loader\<close>

lemma finalize_network [simp]:
  "ld_umd (finalizeLoadMetrics pf name ld) = ld_umd ld"
  "ld_detector (finalizeLoadMetrics pf name ld) = ld_detector ld"
  "ld_imports (finalizeLoadMetrics pf name ld) = ld_imports ld"
  by (simp_all add: finalizeLoadMetrics_def)

lemma loadApp_disabled:
  "name \<in> set rd \<Longrightarrow>
   fst (loadApp pf net rd ld now later name) = Ready (createUnavailableApp name)
   \<and> ld_umd (snd (loadApp pf net rd ld now later name)) = ld_umd ld
   \<and> ld_detector (snd (loadApp pf net rd ld now later name)) = ld_detector ld
   \<and> ld_imports (snd (loadApp pf net rd ld now later name)) = ld_imports ld"
  by (simp add: loadApp_def Let_def)

lemma toggle_catalog:
  "ok res \<Longrightarrow> body res = Some (JObj [(''disabled'', JArr [JStr ''@org/catalog''])]) \<Longrightarrow>
   getServerToggleState lc ALWAYS_ON_APPS (Resolves res)
     = Resolves \<lparr>disabled = [''@org/catalog''], disabledMode = None\<rparr>"
  by (simp add: getServerToggleState_object normalizeDisabledModeConfig_def
      sanitizeDisabledApps_def ALWAYS_ON_APPS_def new_Set_def set_add_def)

lemma new_Set_single [simp]: "new_Set [x] = [x]"
  by (simp add: new_Set_def set_add_def)

lemma sanitize_none_on [simp]: "sanitizeDisabledApps [] [x] = [x]"
  by (simp add: sanitizeDisabledApps_def)

lemma setRuntime_single [simp]: "setRuntimeDisabledApps [] [x] = [x]"
  by (simp add: setRuntimeDisabledApps_def set_add_def)

section \<open>A disabled application is not loaded\<close>

text \<open>
  Claim C4. When the toggle endpoint answers 2xx with \<^verbatim>\<open>{disabled:["@org/catalog"]}\<close>, the
  device-local list is empty and the always-on set is empty (as \<^verbatim>\<open>ALWAYS_ON_APPS\<close> is), the
  remote state resolves to that one name, and after startup, outside local development as
  well as after the availability check of local development, the runtime-disabled set is
  exactly \<^verbatim>\<open>@org/catalog\<close>, which is also the list published in the toggle event. For a name
  in the runtime-disabled set \<^verbatim>\<open>loadApp\<close> returns a promise that is already resolved with the
  no-op handle, whose three lifecycles resolve at once, and it appends no script, issues no
  request and starts no import.
\<close>

theorem disabled_app_is_noop:
  assumes "ok res" and "body res = Some (JObj [(''disabled'', JArr [JStr ''@org/catalog''])])"
    and "getDisabledApps ALWAYS_ON_APPS li = []"
    and "getServerToggleState lc ALWAYS_ON_APPS (Resolves res) = Resolves t"
  shows "t = \<lparr>disabled = [''@org/catalog''], disabledMode = None\<rparr>
     \<and> runtimeDisabledApps
         (start_production ALWAYS_ON_APPS allApps t (getDisabledApps ALWAYS_ON_APPS li) pg)
        = [''@org/catalog'']
     \<and> dispatched
         (start_production ALWAYS_ON_APPS allApps t (getDisabledApps ALWAYS_ON_APPS li) pg)
        = dispatched pg @ [MfeToggle [''@org/catalog''] None]
     \<and> runtimeDisabledApps
         (runAvailabilityCheck str ALWAYS_ON_APPS allApps cached av t li pg)
        = [''@org/catalog'']
     \<and> fst (loadApp pf net [''@org/catalog''] ld now later ''@org/catalog'')
        = Ready \<lparr>bootstrap = Resolves (), mount = Resolves (), unmount = Resolves ()\<rparr>
     \<and> ld_umd (snd (loadApp pf net [''@org/catalog''] ld now later ''@org/catalog'')) = ld_umd ld
     \<and> ld_detector (snd (loadApp pf net [''@org/catalog''] ld now later ''@org/catalog''))
        = ld_detector ld
     \<and> ld_imports (snd (loadApp pf net [''@org/catalog''] ld now later ''@org/catalog''))
        = ld_imports ld
     \<and> (\<forall>rd name. name \<in> set rd \<longrightarrow>
          fst (loadApp pf net rd ld now later name) = Ready (createUnavailableApp name)
          \<and> ld_umd (snd (loadApp pf net rd ld now later name)) = ld_umd ld
          \<and> ld_detector (snd (loadApp pf net rd ld now later name)) = ld_detector ld
          \<and> ld_imports (snd (loadApp pf net rd ld now later name)) = ld_imports ld)"
proof -
  have t: "t = \<lparr>disabled = [''@org/catalog''], disabledMode = None\<rparr>"
    using toggle_catalog[OF assms(1,2), of lc] assms(4) by simp
  have l: "getDisabledApps [] li = []" using assms(3) by (simp add: ALWAYS_ON_APPS_def)
  have 1: "runtimeDisabledApps
         (start_production ALWAYS_ON_APPS allApps t (getDisabledApps ALWAYS_ON_APPS li) pg)
        = [''@org/catalog'']"
    by (simp add: start_production_def Let_def t l ALWAYS_ON_APPS_def)
  have 2: "dispatched
         (start_production ALWAYS_ON_APPS allApps t (getDisabledApps ALWAYS_ON_APPS li) pg)
        = dispatched pg @ [MfeToggle [''@org/catalog''] None]"
    by (simp add: start_production_def Let_def t l ALWAYS_ON_APPS_def
        emitDisabledApps_def register_and_start_def)
  have 3: "runtimeDisabledApps
         (runAvailabilityCheck str ALWAYS_ON_APPS allApps cached av t li pg)
        = [''@org/catalog'']"
    by (simp add: runAvailabilityCheck_def Let_def t l ALWAYS_ON_APPS_def
        split: option.splits)
  note 4 = loadApp_disabled[of "''@org/catalog''" "[''@org/catalog'']" pf net ld now later]
  show ?thesis
    using t 1 2 3 4 loadApp_disabled[of _ _ pf net ld now later]
    by (simp add: createUnavailableApp_def)
qed

theorem disabled_app_is_noop_witness:
  "runtimeDisabledApps
     (start_production ALWAYS_ON_APPS [''@org/catalog'', ''@org/profile-vue'']
        \<lparr>disabled = [''@org/catalog''], disabledMode = None\<rparr>
        (getDisabledApps ALWAYS_ON_APPS NoItem) initial_page) = [''@org/catalog'']
   \<and> fst (loadApp \<lparr>pf_isLocalhost = True, pf_perf = True, pf_system = True, pf_csp = None\<rparr>
          (\<lambda>n. Rejects) [''@org/catalog'']
          \<lparr>ld_umd = \<lparr>umdLoads = Map.empty, scripts = []\<rparr>,
           ld_detector = \<lparr>moduleFormatCache = Map.empty, requests = []\<rparr>,
           ld_imports = [], ld_perf = []\<rparr> 7 8 ''@org/catalog'')
       = Ready \<lparr>bootstrap = Resolves (), mount = Resolves (), unmount = Resolves ()\<rparr>
   \<and> ld_detector (snd (loadApp \<lparr>pf_isLocalhost = True, pf_perf = True, pf_system = True, pf_csp = None\<rparr>
          (\<lambda>n. Rejects) [''@org/catalog'']
          \<lparr>ld_umd = \<lparr>umdLoads = Map.empty, scripts = []\<rparr>,
           ld_detector = \<lparr>moduleFormatCache = Map.empty, requests = []\<rparr>,
           ld_imports = [], ld_perf = []\<rparr> 7 8 ''@org/catalog''))
       = \<lparr>moduleFormatCache = Map.empty, requests = []\<rparr>
   \<and> ld_imports (snd (loadApp \<lparr>pf_isLocalhost = True, pf_perf = True, pf_system = True, pf_csp = None\<rparr>
          (\<lambda>n. Rejects) [''@org/catalog'']
          \<lparr>ld_umd = \<lparr>umdLoads = Map.empty, scripts = []\<rparr>,
           ld_detector = \<lparr>moduleFormatCache = Map.empty, requests = []\<rparr>,
           ld_imports = [], ld_perf = []\<rparr> 7 8 ''@org/catalog'')) = []"
proof -
  let ?res = "Response 200 (Some (JObj [(''disabled'', JArr [JStr ''@org/catalog''])]))"
  have o: "ok ?res" by (simp add: ok_def)
  have b: "body ?res = Some (JObj [(''disabled'', JArr [JStr ''@org/catalog''])])" by simp
  have l: "getDisabledApps ALWAYS_ON_APPS NoItem = []" by (simp add: new_Set_def)
  have g: "getServerToggleState (\<lambda>a b. 0) ALWAYS_ON_APPS (Resolves ?res)
      = Resolves \<lparr>disabled = [''@org/catalog''], disabledMode = None\<rparr>"
    by (rule toggle_catalog[OF o b])
  show ?thesis
    using disabled_app_is_noop[OF o b l g,
        of "[''@org/catalog'', ''@org/profile-vue'']" initial_page "\<lambda>j. []" None "[]"
          "\<lparr>pf_isLocalhost = True, pf_perf = True, pf_system = True, pf_csp = None\<rparr>"
          "\<lambda>n. Rejects"
          "\<lparr>ld_umd = \<lparr>umdLoads = Map.empty, scripts = []\<rparr>,
           ld_detector = \<lparr>moduleFormatCache = Map.empty, requests = []\<rparr>,
           ld_imports = [], ld_perf = []\<rparr>" 7 8]
    by simp
qed

text \<open>For contrast: the same application, when it is not disabled, reaches the network.\<close>

lemma enabled_app_touches_network:
  "loadApp \<lparr>pf_isLocalhost = False, pf_perf = False, pf_system = True, pf_csp = None\<rparr>
     (\<lambda>n. Rejects) []
     \<lparr>ld_umd = \<lparr>umdLoads = Map.empty, scripts = []\<rparr>,
      ld_detector = \<lparr>moduleFormatCache = Map.empty, requests = []\<rparr>,
      ld_imports = [], ld_perf = []\<rparr> 7 8 ''@org/catalog''
   = (AwaitImport (SystemImport ''@org/catalog''),
      \<lparr>ld_umd = \<lparr>umdLoads = Map.empty, scripts = []\<rparr>,
       ld_detector = \<lparr>moduleFormatCache = Map.empty, requests = []\<rparr>,
       ld_imports = [SystemImport ''@org/catalog''], ld_perf = []\<rparr>)"
  by (simp add: loadApp_def Let_def umdApps_def systemFirstApps_def start_import_def)


end
